theory Spec2Isabelle
  imports Main "HOL-Library.AList"
begin

section \<open>JavaScript values and strings\<close>

text \<open>
  A string is a list of code units; the model covers the code units below 256 (Latin-1),
  which is what a \<^typ>\<open>char\<close> holds. Numbers in documents and scores are integers
  (\<^typ>\<open>int\<close>): every number the engine computes is an integer far below \<open>2^53\<close>, where
  the doubles of JavaScript are exact.
\<close>

datatype json =
    JNull
  | JBool bool
  | JNum int
  | JStr string
  | JArr "json list"
  | JObj "(string \<times> json) list"

text \<open>
  An object is the list of its properties in enumeration order (no key twice; all keys
  here are non-numeric strings, which JavaScript enumerates in insertion order).
\<close>

type_synonym jobject = "(string \<times> json) list"

text \<open>\<open>String.prototype.toLowerCase\<close> on code units below 256.\<close>

definition toLowerChar :: "char \<Rightarrow> char" where
  "toLowerChar c = (let n = (of_char c :: nat) in
     if (65 \<le> n \<and> n \<le> 90) \<or> (192 \<le> n \<and> n \<le> 222 \<and> n \<noteq> 215)
     then char_of (n + 32) else c)"

definition toLowerCase :: "string \<Rightarrow> string" where
  "toLowerCase s = map toLowerChar s"

section \<open>The template catalog (template-manager.ts)\<close>

record DevContainerTemplate =
  name :: string
  description :: string
  languages :: "string list"
  frameworks :: "string list"
  features :: "string list"
  category :: string
  config :: jobject

definition vscodeExtensions :: "string list \<Rightarrow> json" where
  "vscodeExtensions es = JObj [(''vscode'', JObj [(''extensions'', JArr (map JStr es))])]"

definition tplNodejsTypescript :: DevContainerTemplate where
  "tplNodejsTypescript = \<lparr>
     name = ''nodejs-typescript'',
     description = ''Node.js development with TypeScript support'',
     languages = [''javascript'', ''typescript''],
     frameworks = [''node'', ''express''],
     features = [''Node.js'', ''TypeScript'', ''ESLint'', ''Prettier''],
     category = ''backend'',
     config = [
       (''name'', JStr ''Node.js & TypeScript Development''),
       (''image'', JStr ''mcr.microsoft.com/devcontainers/typescript-node:18''),
       (''features'', JObj [(''ghcr.io/devcontainers/features/node:1'',
            JObj [(''version'', JStr ''18'')])]),
       (''customizations'', vscodeExtensions [
            ''ms-vscode.vscode-typescript-next'', ''ms-vscode.vscode-eslint'',
            ''esbenp.prettier-vscode'', ''ms-vscode.vscode-json'']),
       (''forwardPorts'', JArr [JNum 3000]),
       (''postCreateCommand'', JStr ''npm install''),
       (''remoteUser'', JStr ''node'')] \<rparr>"

definition tplPython :: DevContainerTemplate where
  "tplPython = \<lparr>
     name = ''python'',
     description = ''Python development with common packages and debugging'',
     languages = [''python''],
     frameworks = [''django'', ''flask'', ''fastapi''],
     features = [''Python'', ''pip'', ''pytest'', ''Black''],
     category = ''backend'',
     config = [
       (''name'', JStr ''Python Development''),
       (''image'', JStr ''mcr.microsoft.com/devcontainers/python:3.11''),
       (''features'', JObj [(''ghcr.io/devcontainers/features/python:1'',
            JObj [(''version'', JStr ''3.11'')])]),
       (''customizations'', vscodeExtensions [
            ''ms-python.python'', ''ms-python.pylint'',
            ''ms-python.black-formatter'', ''ms-python.isort'']),
       (''forwardPorts'', JArr [JNum 8000]),
       (''postCreateCommand'', JStr ''pip install -r requirements.txt''),
       (''remoteUser'', JStr ''vscode'')] \<rparr>"

definition tplGo :: DevContainerTemplate where
  "tplGo = \<lparr>
     name = ''go'',
     description = ''Go development with standard tooling'',
     languages = [''go''],
     frameworks = [''gin'', ''fiber'', ''echo''],
     features = [''Go'', ''go mod'', ''gofmt'', ''gopls''],
     category = ''backend'',
     config = [
       (''name'', JStr ''Go Development''),
       (''image'', JStr ''mcr.microsoft.com/devcontainers/go:1.21''),
       (''features'', JObj [(''ghcr.io/devcontainers/features/go:1'',
            JObj [(''version'', JStr ''1.21'')])]),
       (''customizations'', vscodeExtensions [''golang.go'', ''ms-vscode.vscode-json'']),
       (''forwardPorts'', JArr [JNum 8080]),
       (''postCreateCommand'', JStr ''go mod download''),
       (''remoteUser'', JStr ''vscode'')] \<rparr>"

definition tplRust :: DevContainerTemplate where
  "tplRust = \<lparr>
     name = ''rust'',
     description = ''Rust environment with Cargo and debugging'',
     languages = [''rust''],
     frameworks = [''actix'', ''rocket'', ''warp''],
     features = [''Rust'', ''Cargo'', ''rustfmt'', ''clippy''],
     category = ''backend'',
     config = [
       (''name'', JStr ''Rust Development''),
       (''image'', JStr ''mcr.microsoft.com/devcontainers/rust:1''),
       (''features'', JObj [(''ghcr.io/devcontainers/features/rust:1'',
            JObj [(''version'', JStr ''latest'')])]),
       (''customizations'', vscodeExtensions [
            ''rust-lang.rust-analyzer'', ''vadimcn.vscode-lldb'']),
       (''forwardPorts'', JArr [JNum 8000]),
       (''postCreateCommand'', JStr ''cargo build''),
       (''remoteUser'', JStr ''vscode'')] \<rparr>"

definition tplJava :: DevContainerTemplate where
  "tplJava = \<lparr>
     name = ''java'',
     description = ''Java with Maven/Gradle support'',
     languages = [''java''],
     frameworks = [''spring'', ''springboot'', ''maven'', ''gradle''],
     features = [''Java'', ''Maven'', ''Gradle'', ''JUnit''],
     category = ''backend'',
     config = [
       (''name'', JStr ''Java Development''),
       (''image'', JStr ''mcr.microsoft.com/devcontainers/java:17''),
       (''features'', JObj [(''ghcr.io/devcontainers/features/java:1'',
            JObj [(''version'', JStr ''17''), (''installMaven'', JBool True),
                  (''installGradle'', JBool True)])]),
       (''customizations'', vscodeExtensions [
            ''vscjava.vscode-java-pack'', ''vmware.vscode-spring-boot'']),
       (''forwardPorts'', JArr [JNum 8080]),
       (''postCreateCommand'', JStr ''mvn dependency:resolve''),
       (''remoteUser'', JStr ''vscode'')] \<rparr>"

definition tplPhp :: DevContainerTemplate where
  "tplPhp = \<lparr>
     name = ''php'',
     description = ''PHP with Composer and debugging'',
     languages = [''php''],
     frameworks = [''laravel'', ''symfony'', ''codeigniter''],
     features = [''PHP'', ''Composer'', ''Xdebug''],
     category = ''backend'',
     config = [
       (''name'', JStr ''PHP Development''),
       (''image'', JStr ''mcr.microsoft.com/devcontainers/php:8.2''),
       (''features'', JObj [(''ghcr.io/devcontainers/features/php:1'',
            JObj [(''version'', JStr ''8.2'')])]),
       (''customizations'', vscodeExtensions [
            ''bmewburn.vscode-intelephense-client'', ''xdebug.php-debug'']),
       (''forwardPorts'', JArr [JNum 8000]),
       (''postCreateCommand'', JStr ''composer install''),
       (''remoteUser'', JStr ''vscode'')] \<rparr>"

definition tplRuby :: DevContainerTemplate where
  "tplRuby = \<lparr>
     name = ''ruby'',
     description = ''Ruby with Rails support'',
     languages = [''ruby''],
     frameworks = [''rails'', ''sinatra''],
     features = [''Ruby'', ''Rails'', ''Bundler'', ''RSpec''],
     category = ''backend'',
     config = [
       (''name'', JStr ''Ruby Development''),
       (''image'', JStr ''mcr.microsoft.com/devcontainers/ruby:3.2''),
       (''features'', JObj [(''ghcr.io/devcontainers/features/ruby:1'',
            JObj [(''version'', JStr ''3.2'')])]),
       (''customizations'', vscodeExtensions [
            ''rebornix.ruby'', ''wingrunr21.vscode-ruby'']),
       (''forwardPorts'', JArr [JNum 3000]),
       (''postCreateCommand'', JStr ''bundle install''),
       (''remoteUser'', JStr ''vscode'')] \<rparr>"

definition tplReact :: DevContainerTemplate where
  "tplReact = \<lparr>
     name = ''react'',
     description = ''Modern React development stack'',
     languages = [''javascript'', ''typescript''],
     frameworks = [''react'', ''next'', ''vite''],
     features = [''React'', ''TypeScript'', ''Vite'', ''ESLint''],
     category = ''frontend'',
     config = [
       (''name'', JStr ''React Development''),
       (''image'', JStr ''mcr.microsoft.com/devcontainers/typescript-node:18''),
       (''features'', JObj [(''ghcr.io/devcontainers/features/node:1'',
            JObj [(''version'', JStr ''18'')])]),
       (''customizations'', vscodeExtensions [
            ''ms-vscode.vscode-typescript-next'', ''bradlc.vscode-tailwindcss'',
            ''esbenp.prettier-vscode'', ''ms-vscode.vscode-eslint'',
            ''ms-vscode.vscode-json'']),
       (''forwardPorts'', JArr [JNum 3000, JNum 5173]),
       (''postCreateCommand'', JStr ''npm install''),
       (''remoteUser'', JStr ''node'')] \<rparr>"

definition tplMeanStack :: DevContainerTemplate where
  "tplMeanStack = \<lparr>
     name = ''mean-stack'',
     description = ''MongoDB, Express, Angular, Node.js stack'',
     languages = [''javascript'', ''typescript''],
     frameworks = [''angular'', ''express'', ''mongodb''],
     features = [''Node.js'', ''Angular'', ''MongoDB'', ''Express''],
     category = ''fullstack'',
     config = [
       (''name'', JStr ''MEAN Stack Development''),
       (''dockerComposeFile'', JStr ''docker-compose.yml''),
       (''service'', JStr ''app''),
       (''workspaceFolder'', JStr ''/workspace''),
       (''features'', JObj [(''ghcr.io/devcontainers/features/node:1'',
            JObj [(''version'', JStr ''18'')])]),
       (''customizations'', vscodeExtensions [
            ''ms-vscode.vscode-typescript-next'', ''angular.ng-template'',
            ''mongodb.mongodb-vscode'']),
       (''forwardPorts'', JArr [JNum 4200, JNum 3000, JNum 27017]),
       (''postCreateCommand'', JStr ''npm install'')] \<rparr>"

definition tplDockerCompose :: DevContainerTemplate where
  \<open>tplDockerCompose = \<lparr>
     name = ''docker-compose'',
     description = ''Multi-service development with Docker Compose'',
     languages = [''javascript'', ''python'', ''go''],
     frameworks = [''microservices'', ''docker''],
     features = [''Docker'', ''Docker Compose'', ''Multi-service''],
     category = ''fullstack'',
     config = [
       (''name'', JStr ''Docker Compose Development''),
       (''dockerComposeFile'', JStr ''docker-compose.yml''),
       (''service'', JStr ''app''),
       (''workspaceFolder'', JStr ''/workspace''),
       (''shutdownAction'', JStr ''stopCompose''),
       (''customizations'', vscodeExtensions [
            ''ms-azuretools.vscode-docker'', ''ms-vscode-remote.remote-containers'']),
       (''forwardPorts'', JArr [JNum 3000, JNum 8000, JNum 5432]),
       (''postCreateCommand'', JStr ''echo "Multi-service environment ready"'')] \<rparr>\<close>

definition tplUniversal :: DevContainerTemplate where
  \<open>tplUniversal = \<lparr>
     name = ''universal'',
     description = ''Multi-language development environment'',
     languages = [''javascript'', ''python'', ''go'', ''rust'', ''java''],
     frameworks = [''universal''],
     features = [''Multiple Languages'', ''Git'', ''Docker'', ''SSH''],
     category = ''universal'',
     config = [
       (''name'', JStr ''Universal Development Environment''),
       (''image'', JStr ''mcr.microsoft.com/devcontainers/universal:2''),
       (''features'', JObj [
            (''ghcr.io/devcontainers/features/docker-in-docker:2'', JObj []),
            (''ghcr.io/devcontainers/features/git:1'', JObj []),
            (''ghcr.io/devcontainers/features/github-cli:1'', JObj [])]),
       (''customizations'', vscodeExtensions [
            ''ms-vscode.vscode-json'', ''ms-azuretools.vscode-docker'',
            ''github.vscode-pull-request-github'']),
       (''forwardPorts'', JArr [JNum 3000, JNum 8000, JNum 8080]),
       (''postCreateCommand'', JStr ''echo "Universal environment ready"''),
       (''remoteUser'', JStr ''codespace'')] \<rparr>\<close>

definition templates :: "DevContainerTemplate list" where
  "templates = [tplNodejsTypescript, tplPython, tplGo, tplRust, tplJava, tplPhp, tplRuby,
     tplReact, tplMeanStack, tplDockerCompose, tplUniversal]"

subsection \<open>findBestMatch\<close>

text \<open>
  The two inner loops add 10 for every input language and 5 for every input framework
  whose lower-cased form the template lists (\<open>Array.prototype.includes\<close> on strings is
  equality); the template named \<open>universal\<close> then loses 1.
\<close>

definition languageLoop :: "DevContainerTemplate \<Rightarrow> string list \<Rightarrow> int \<Rightarrow> int" where
  "languageLoop t langs score =
     fold (\<lambda>lang s. if toLowerCase lang \<in> set (languages t) then s + 10 else s) langs score"

definition frameworkLoop :: "DevContainerTemplate \<Rightarrow> string list \<Rightarrow> int \<Rightarrow> int" where
  "frameworkLoop t fws score =
     fold (\<lambda>fw s. if toLowerCase fw \<in> set (frameworks t) then s + 5 else s) fws score"

text \<open>The score before the line \<open>if (template.name === 'universal') score -= 1\<close>.\<close>

definition rawScore :: "DevContainerTemplate \<Rightarrow> string list \<Rightarrow> string list \<Rightarrow> int" where
  "rawScore t langs fws = frameworkLoop t fws (languageLoop t langs 0)"

definition templateScore :: "DevContainerTemplate \<Rightarrow> string list \<Rightarrow> string list \<Rightarrow> int" where
  "templateScore t langs fws =
     (let score = rawScore t langs fws
      in if name t = ''universal'' then score - 1 else score)"

text \<open>The outer loop, on the pair \<open>(bestMatch, bestScore)\<close>.\<close>

fun matchLoop :: "DevContainerTemplate list \<Rightarrow> string list \<Rightarrow> string list \<Rightarrow>
    DevContainerTemplate option \<times> int \<Rightarrow> DevContainerTemplate option \<times> int" where
  "matchLoop [] langs fws best = best"
| "matchLoop (t # ts) langs fws (bestMatch, bestScore) =
     (let score = templateScore t langs fws
      in if score > bestScore then matchLoop ts langs fws (Some t, score)
         else matchLoop ts langs fws (bestMatch, bestScore))"

text \<open>\<open>findBestMatch\<close> over any catalog; \<open>None\<close> is JavaScript's \<open>null\<close>.\<close>

definition findBestMatchIn :: "DevContainerTemplate list \<Rightarrow> string list \<Rightarrow> string list \<Rightarrow>
    DevContainerTemplate option" where
  "findBestMatchIn ts langs fws =
     (case matchLoop ts langs fws (None, 0) of
        (bestMatch, bestScore) \<Rightarrow>
          if bestScore = 0 then find (\<lambda>t. name t = ''universal'') ts else bestMatch)"

definition findBestMatch :: "string list \<Rightarrow> string list \<Rightarrow> DevContainerTemplate option" where
  "findBestMatch langs fws = findBestMatchIn templates langs fws"

definition getTemplate :: "string \<Rightarrow> DevContainerTemplate option" where
  "getTemplate nm = find (\<lambda>t. name t = nm) templates"

section \<open>Regular expressions\<close>

text \<open>
  The fragment of JavaScript's regular expressions that the engine uses: literal
  characters, the classes \<open>\d\<close>, \<open>\D\<close>, \<open>\s\<close>, greedy repetition of one class
  (\<open>c+\<close>, \<open>c{m,n}\<close>), the assertion \<open>\b\<close>, sequence and alternation; \<open>r?\<close> is the
  alternation of \<open>r\<close> and the empty sequence, in that order.
\<close>

datatype cls = Chr char | Digit | NonDigit | Space

datatype rx =
    Cls cls
  | Rep cls nat "nat option"
  | WordB
  | Seq "rx list"
  | Alt "rx list"

definition Str :: "string \<Rightarrow> rx" where
  "Str s = Seq (map (\<lambda>c. Cls (Chr c)) s)"

definition Opt :: "rx \<Rightarrow> rx" where
  "Opt r = Alt [r, Seq []]"

definition isDigit :: "char \<Rightarrow> bool" where
  "isDigit c = (let n = (of_char c :: nat) in 48 \<le> n \<and> n \<le> 57)"

definition isWordChar :: "char \<Rightarrow> bool" where
  "isWordChar c = (let n = (of_char c :: nat) in
     (48 \<le> n \<and> n \<le> 57) \<or> (65 \<le> n \<and> n \<le> 90) \<or> n = 95 \<or> (97 \<le> n \<and> n \<le> 122))"

text \<open>White space below 256: tab, line feed, vertical tab, form feed, carriage return,
  space and no-break space.\<close>

definition isSpace :: "char \<Rightarrow> bool" where
  "isSpace c = (let n = (of_char c :: nat) in (9 \<le> n \<and> n \<le> 13) \<or> n = 32 \<or> n = 160)"

text \<open>
  \<open>Canonicalize\<close> of the \<open>i\<close> flag (without the \<open>u\<close> flag): the upper case of the code
  unit, as a number since two of them (of \<open>0xFF\<close> and \<open>0xB5\<close>) lie above 255; a
  character whose upper case is longer than one code unit (\<open>0xDF\<close>) stays.
\<close>

definition canonicalize :: "char \<Rightarrow> nat" where
  "canonicalize c = (let n = (of_char c :: nat) in
     if (97 \<le> n \<and> n \<le> 122) \<or> (224 \<le> n \<and> n \<le> 254 \<and> n \<noteq> 247) then n - 32
     else if n = 255 then 376
     else if n = 181 then 924
     else n)"

fun clsMatch :: "bool \<Rightarrow> cls \<Rightarrow> char \<Rightarrow> bool" where
  "clsMatch ic (Chr p) c = (if ic then canonicalize c = canonicalize p else c = p)"
| "clsMatch ic Digit c = isDigit c"
| "clsMatch ic NonDigit c = (\<not> isDigit c)"
| "clsMatch ic Space c = isSpace c"

text \<open>\<open>\b\<close> at index \<open>i\<close>: exactly one of the characters before and after is a word
  character; outside the string there is none.\<close>

definition wordBoundary :: "string \<Rightarrow> nat \<Rightarrow> bool" where
  "wordBoundary s i =
     (let wordBefore = (0 < i \<and> i \<le> length s \<and> isWordChar (s ! (i - 1)));
          wordAfter = (i < length s \<and> isWordChar (s ! i))
      in wordBefore \<noteq> wordAfter)"

text \<open>
  The backtracking matcher as a list of successes: \<open>rxm ic s r i\<close> is the list of the end
  indices of the matches of \<open>r\<close> that start at index \<open>i\<close> of \<open>s\<close>, in the order in which
  backtracking tries them (a greedy repetition tries the longest first, an alternation
  its branches from the left). The match the engine reports is the first.
\<close>

fun rxm :: "bool \<Rightarrow> string \<Rightarrow> rx \<Rightarrow> nat \<Rightarrow> nat list"
  and rxmSeq :: "bool \<Rightarrow> string \<Rightarrow> rx list \<Rightarrow> nat \<Rightarrow> nat list"
  and rxmAlt :: "bool \<Rightarrow> string \<Rightarrow> rx list \<Rightarrow> nat \<Rightarrow> nat list" where
  "rxm ic s (Cls c) i = (if i < length s \<and> clsMatch ic c (s ! i) then [Suc i] else [])"
| "rxm ic s (Rep c lo hi) i =
     (let n = length (takeWhile (clsMatch ic c) (drop i s));
          m = (case hi of None \<Rightarrow> n | Some h \<Rightarrow> min n h)
      in if m < lo then [] else map (\<lambda>k. i + k) (rev [lo..<Suc m]))"
| "rxm ic s WordB i = (if wordBoundary s i then [i] else [])"
| "rxm ic s (Seq rs) i = rxmSeq ic s rs i"
| "rxm ic s (Alt rs) i = rxmAlt ic s rs i"
| "rxmSeq ic s [] i = [i]"
| "rxmSeq ic s (r # rs) i = concat (map (rxmSeq ic s rs) (rxm ic s r i))"
| "rxmAlt ic s [] i = []"
| "rxmAlt ic s (r # rs) i = rxm ic s r i @ rxmAlt ic s rs i"

text \<open>\<open>RegExp.prototype.exec\<close> from index \<open>from\<close>: the leftmost start that has a match,
  with the end of its first match.\<close>

definition rxExec :: "bool \<Rightarrow> rx \<Rightarrow> string \<Rightarrow> nat \<Rightarrow> (nat \<times> nat) option" where
  "rxExec ic r s from =
     (case find (\<lambda>i. rxm ic s r i \<noteq> []) [from..<Suc (length s)] of
        None \<Rightarrow> None
      | Some i \<Rightarrow> Some (i, hd (rxm ic s r i)))"

text \<open>\<open>RegExp.prototype.test\<close> of a regular expression without the \<open>g\<close> flag.\<close>

definition rxTest :: "bool \<Rightarrow> rx \<Rightarrow> string \<Rightarrow> bool" where
  "rxTest ic r s = (rxExec ic r s 0 \<noteq> None)"

text \<open>
  The matches of a regular expression with the \<open>g\<close> flag, as (start, end) pairs: the
  search resumes at the end of the last match, one further after an empty match.
\<close>

function rxMatchAll :: "bool \<Rightarrow> rx \<Rightarrow> string \<Rightarrow> nat \<Rightarrow> (nat \<times> nat) list" where
  "rxMatchAll ic r s from =
     (case rxExec ic r s from of
        None \<Rightarrow> []
      | Some (b, e) \<Rightarrow> (b, e) # rxMatchAll ic r s (if e \<le> b then Suc b else e))"
  by pat_completeness auto
termination
proof (relation "measure (\<lambda>(ic, r, s, from). Suc (length s) - from)")
  show "wf (measure (\<lambda>(ic, r, s, from). Suc (length s) - from))" by simp
next
  fix ic r s "from" x b e
  assume ex: "rxExec ic r s from = Some x" and x: "(b, e) = x"
  from ex x obtain i where
    f: "find (\<lambda>i. rxm ic s r i \<noteq> []) [from..<Suc (length s)] = Some i" and bi: "b = i"
    by (auto simp: rxExec_def split: option.splits)
  from f have "i \<in> set [from..<Suc (length s)]"
    by (metis find_Some_iff nth_mem)
  with bi have "from \<le> b" "b \<le> length s"
    by (simp_all only: set_upt atLeastLessThan_iff less_Suc_eq_le)
  then show "((ic, r, s, if e \<le> b then Suc b else e), (ic, r, s, from))
      \<in> measure (\<lambda>(ic, r, s, from). Suc (length s) - from)"
    by auto
qed

text \<open>\<open>s.match(r)\<close> for \<open>r\<close> with the \<open>g\<close> flag, followed by \<open>|| []\<close>: the matched
  substrings.\<close>

definition matchG :: "bool \<Rightarrow> rx \<Rightarrow> string \<Rightarrow> string list" where
  "matchG ic r s = map (\<lambda>(b, e). take (e - b) (drop b s)) (rxMatchAll ic r s 0)"

text \<open>\<open>s.replace(r, repl)\<close> for \<open>r\<close> with the \<open>g\<close> flag and a replacement without
  \<open>$\<close> patterns.\<close>

fun replaceFrom :: "string \<Rightarrow> (nat \<times> nat) list \<Rightarrow> nat \<Rightarrow> string \<Rightarrow> string" where
  "replaceFrom s [] pos repl = drop pos s"
| "replaceFrom s ((b, e) # ms) pos repl =
     take (b - pos) (drop pos s) @ repl @ replaceFrom s ms e repl"

definition replaceG :: "bool \<Rightarrow> rx \<Rightarrow> string \<Rightarrow> string \<Rightarrow> string" where
  "replaceG ic r s repl = replaceFrom s (rxMatchAll ic r s 0) 0 repl"

text \<open>
  \<open>parseInt(s, 10)\<close>: leading white space, an optional sign, then the longest prefix of
  digits; \<open>None\<close> is \<open>NaN\<close>. The value is exact here, a double in JavaScript: rounding is
  monotone and the bounds it is compared with are exact, so the comparisons agree.
\<close>

definition digitsValue :: "string \<Rightarrow> int" where
  "digitsValue ds = foldl (\<lambda>acc c. 10 * acc + (int (of_char c) - 48)) 0 ds"

definition parseInt10 :: "string \<Rightarrow> int option" where
  "parseInt10 s =
     (let t = dropWhile isSpace s;
          (sign, u) = (case t of
                         c # cs \<Rightarrow> if c = CHR ''-'' then (- 1, cs)
                                   else if c = CHR ''+'' then (1, cs) else (1, t)
                       | [] \<Rightarrow> (1, t));
          ds = takeWhile isDigit u
      in if ds = [] then None else Some (sign * digitsValue ds))"

text \<open>\<open>[...new Set(xs)]\<close>: the first occurrence of every element, in order; \<open>eq\<close> is the
  equality of the set (SameValueZero).\<close>

definition newSet :: "('a \<Rightarrow> 'a \<Rightarrow> bool) \<Rightarrow> 'a list \<Rightarrow> 'a list" where
  "newSet eq xs = foldl (\<lambda>acc x. if list_ex (\<lambda>y. eq y x) acc then acc else acc @ [x]) [] xs"

section \<open>Prompt analysis (config-generator.ts)\<close>

record PromptAnalysis =
  languages :: "string list"
  frameworks :: "string list"
  tools :: "string list"
  databases :: "string list"
  os :: string
  ports :: "int list"
  extensions :: "string list"
  originalPrompt :: string

text \<open>The keyword tables; \<open>wordRe [a, b]\<close> is \<open>/\b(a|b)\b/\<close>. Every tag has one pattern.\<close>

definition wordRe :: "rx list \<Rightarrow> rx" where
  "wordRe alts = Seq [WordB, Alt alts, WordB]"

definition languagePatterns :: "(string \<times> rx list) list" where
  "languagePatterns = [
     (''javascript'', [wordRe [Str ''javascript'', Str ''js'',
          Seq [Str ''node'', Opt (Cls (Chr (CHR ''.''))), Str ''js''], Str ''npm'', Str ''yarn'']]),
     (''typescript'', [wordRe [Str ''typescript'', Str ''ts'']]),
     (''python'', [wordRe [Str ''python'', Str ''py'', Str ''django'', Str ''flask'',
          Str ''fastapi'', Str ''pip'']]),
     (''go'', [wordRe [Str ''go'', Str ''golang'']]),
     (''rust'', [wordRe [Str ''rust'', Str ''cargo'']]),
     (''java'', [wordRe [Str ''java'', Str ''maven'', Str ''gradle'', Str ''spring'']]),
     (''php'', [wordRe [Str ''php'', Str ''composer'', Str ''laravel'', Str ''symfony'']]),
     (''ruby'', [wordRe [Str ''ruby'', Str ''rails'', Str ''gem'', Str ''bundler'']]),
     (''csharp'', [wordRe [Str ''c#'', Str ''csharp'', Str ''.net'', Str ''dotnet'']]),
     (''cpp'', [wordRe [Str ''c++'', Str ''cpp'', Str ''cmake'']])]"

definition frameworkPatterns :: "(string \<times> rx list) list" where
  "frameworkPatterns = [
     (''react'', [wordRe [Str ''react'', Str ''jsx'',
          Seq [Str ''next'', Opt (Cls (Chr (CHR ''.''))), Str ''js'']]]),
     (''angular'', [wordRe [Str ''angular'', Str ''ng'']]),
     (''vue'', [wordRe [Str ''vue'', Str ''vuejs'']]),
     (''express'', [wordRe [Str ''express'', Str ''expressjs'']]),
     (''django'', [wordRe [Str ''django'']]),
     (''flask'', [wordRe [Str ''flask'']]),
     (''fastapi'', [wordRe [Str ''fastapi'', Str ''fast api'']]),
     (''rails'', [wordRe [Str ''rails'', Str ''ruby on rails'']]),
     (''spring'', [wordRe [Str ''spring'', Str ''springboot'', Str ''spring boot'']]),
     (''gin'', [wordRe [Str ''gin'']]),
     (''fiber'', [wordRe [Str ''fiber'']]),
     (''actix'', [wordRe [Str ''actix'']]),
     (''rocket'', [wordRe [Str ''rocket'']])]"

definition databasePatterns :: "(string \<times> rx list) list" where
  "databasePatterns = [
     (''postgresql'', [wordRe [Str ''postgres'', Str ''postgresql'', Str ''psql'']]),
     (''mysql'', [wordRe [Str ''mysql'']]),
     (''mongodb'', [wordRe [Str ''mongo'', Str ''mongodb'']]),
     (''redis'', [wordRe [Str ''redis'']]),
     (''sqlite'', [wordRe [Str ''sqlite'']]),
     (''elasticsearch'', [wordRe [Str ''elasticsearch'', Str ''elastic'']])]"

definition toolPatterns :: "(string \<times> rx list) list" where
  "toolPatterns = [
     (''docker'', [wordRe [Str ''docker'', Str ''container'']]),
     (''git'', [wordRe [Str ''git'', Str ''github'', Str ''gitlab'']]),
     (''vim'', [wordRe [Str ''vim'', Str ''neovim'', Str ''nvim'']]),
     (''zsh'', [wordRe [Str ''zsh'', Str ''oh-my-zsh'']]),
     (''curl'', [wordRe [Str ''curl'']]),
     (''wget'', [wordRe [Str ''wget'']]),
     (''jq'', [wordRe [Str ''jq'']])]"

text \<open>The four detection loops: the tags, in table order, one of whose patterns
  \<open>test\<close>s true on the lower-cased prompt.\<close>

definition detect :: "(string \<times> rx list) list \<Rightarrow> string \<Rightarrow> string list" where
  "detect table lowerPrompt =
     map fst (filter (\<lambda>(tag, patterns). list_ex (\<lambda>p. rxTest False p lowerPrompt) patterns) table)"

text \<open>\<open>/\bport\s+(\d+)\b/gi\<close> and \<open>/\b(\d{4,5})\b/g\<close>.\<close>

definition portRe :: rx where
  "portRe = Seq [WordB, Str ''port'', Rep Space 1 None, Rep Digit 1 None, WordB]"

definition standalonePortRe :: rx where
  "standalonePortRe = Seq [WordB, Rep Digit 4 (Some 5), WordB]"

text \<open>\<open>.filter(p)\<close> on parsed numbers: a comparison with \<open>NaN\<close> is false.\<close>

definition filterNumbers :: "(int \<Rightarrow> bool) \<Rightarrow> int option list \<Rightarrow> int list" where
  "filterNumbers P xs =
     concat (map (\<lambda>x. case x of None \<Rightarrow> [] | Some n \<Rightarrow> if P n then [n] else []) xs)"

definition explicitPorts :: "string \<Rightarrow> int list" where
  "explicitPorts prompt =
     (let portMatches = matchG True portRe prompt
      in filterNumbers (\<lambda>port. port > 0 \<and> port \<le> 65535)
           (map (\<lambda>m. parseInt10 (replaceG False (Cls NonDigit) m [])) portMatches))"

definition standalonePorts :: "string \<Rightarrow> int list" where
  "standalonePorts prompt =
     (let standalonePortMatches = matchG False standalonePortRe prompt
      in filterNumbers (\<lambda>port. port \<ge> 3000 \<and> port \<le> 9999)
           (map parseInt10 standalonePortMatches))"

definition allPorts :: "string \<Rightarrow> int list" where
  "allPorts prompt = newSet (=) (explicitPorts prompt @ standalonePorts prompt)"

definition detectOs :: "string \<Rightarrow> string" where
  "detectOs prompt =
     (if rxTest True (wordRe [Str ''alpine'', Str ''alpine linux'']) prompt then ''alpine''
      else if rxTest True (wordRe [Str ''debian'']) prompt then ''debian''
      else ''ubuntu'')"

definition recommendedExtensions :: "string list \<Rightarrow> string list \<Rightarrow> string list" where
  "recommendedExtensions langs fws =
     (if ''typescript'' \<in> set langs \<or> ''javascript'' \<in> set langs
      then [''ms-vscode.vscode-typescript-next'', ''ms-vscode.vscode-eslint''] else [])
     @ (if ''python'' \<in> set langs then [''ms-python.python'', ''ms-python.pylint''] else [])
     @ (if ''go'' \<in> set langs then [''golang.go''] else [])
     @ (if ''rust'' \<in> set langs then [''rust-lang.rust-analyzer''] else [])
     @ (if ''react'' \<in> set fws
        then [''bradlc.vscode-tailwindcss'', ''esbenp.prettier-vscode''] else [])"

definition analyzePrompt :: "string \<Rightarrow> PromptAnalysis" where
  "analyzePrompt prompt =
     (let lowerPrompt = toLowerCase prompt;
          langs = detect languagePatterns lowerPrompt;
          fws = detect frameworkPatterns lowerPrompt;
          dbs = detect databasePatterns lowerPrompt;
          tls = detect toolPatterns lowerPrompt
      in \<lparr> languages = langs, frameworks = fws, tools = tls, databases = dbs,
           os = detectOs prompt, ports = allPorts prompt,
           extensions = newSet (=) (recommendedExtensions langs fws),
           originalPrompt = prompt \<rparr>)"

section \<open>Operations of JavaScript on parsed JSON\<close>

text \<open>
  What the engine can throw. \<open>Error msg\<close> is \<open>new Error(msg)\<close>; \<open>TypeError\<close> is thrown by
  the runtime (class bodies are strict code). \<open>ReadError\<close> stands for any failure of
  \<open>fs.readJson\<close>. \<open>ArrayProperty\<close> marks the one case outside the model: a named property
  stored on an array, which JavaScript accepts and which \<^typ>\<open>json\<close> cannot hold.
\<close>

datatype error = Error string | TypeError | ReadError | ArrayProperty

definition bindE :: "error + 'a \<Rightarrow> ('a \<Rightarrow> error + 'b) \<Rightarrow> error + 'b" where
  "bindE m f = (case m of Inl e \<Rightarrow> Inl e | Inr x \<Rightarrow> f x)"

text \<open>Truthiness; \<open>None\<close> is \<open>undefined\<close>.\<close>

fun truthy :: "json option \<Rightarrow> bool" where
  "truthy None = False"
| "truthy (Some JNull) = False"
| "truthy (Some (JBool b)) = b"
| "truthy (Some (JNum n)) = (n \<noteq> 0)"
| "truthy (Some (JStr s)) = (s \<noteq> [])"
| "truthy (Some (JArr xs)) = True"
| "truthy (Some (JObj kvs)) = True"

text \<open>\<open>v || d\<close>.\<close>

definition orElse :: "json option \<Rightarrow> json \<Rightarrow> json" where
  "orElse v d = (case v of Some x \<Rightarrow> if truthy v then x else d | None \<Rightarrow> d)"

text \<open>
  Reading \<open>x.k\<close>, for the property names of the engine (none of them is a property of a
  string, a number, a boolean or an array, so reading it there gives \<open>undefined\<close>).
\<close>

fun getProp :: "json \<Rightarrow> string \<Rightarrow> error + json option" where
  "getProp (JObj kvs) k = Inr (map_of kvs k)"
| "getProp JNull k = Inl TypeError"
| "getProp x k = Inr None"

text \<open>Writing \<open>x.k = v\<close>: an existing property keeps its place, a new one goes last.\<close>

fun setProp :: "json \<Rightarrow> string \<Rightarrow> json \<Rightarrow> error + json" where
  "setProp (JObj kvs) k v = Inr (JObj (AList.update k v kvs))"
| "setProp (JArr xs) k v = Inl ArrayProperty"
| "setProp x k v = Inl TypeError"

text \<open>Reading \<open>x.k1.k2\<close>...: a property of \<open>undefined\<close> or \<open>null\<close> is a TypeError.\<close>

fun getPath :: "json \<Rightarrow> string list \<Rightarrow> error + json option" where
  "getPath x [] = Inr (Some x)"
| "getPath x [k] = getProp x k"
| "getPath x (k # ks) =
     bindE (getProp x k) (\<lambda>v. case v of None \<Rightarrow> Inl TypeError | Some y \<Rightarrow> getPath y ks)"

text \<open>
  Writing \<open>x.k1.k2 = v\<close>: the object \<open>x.k1\<close> is changed in place; on values, the changed
  object is stored back under \<open>k1\<close>.
\<close>

fun setPath :: "json \<Rightarrow> string list \<Rightarrow> json \<Rightarrow> error + json" where
  "setPath x [] v = Inr v"
| "setPath x [k] v = setProp x k v"
| "setPath x (k # ks) v =
     bindE (getProp x k) (\<lambda>c. case c of
        None \<Rightarrow> Inl TypeError
      | Some y \<Rightarrow> bindE (setPath y ks v) (\<lambda>y'. setProp x k y'))"

text \<open>\<open>if (!x.k1.k2) x.k1.k2 = d\<close>.\<close>

definition ensure :: "json \<Rightarrow> string list \<Rightarrow> json \<Rightarrow> error + json" where
  "ensure x p d = bindE (getPath x p) (\<lambda>v. if truthy v then Inr x else setPath x p d)"

text \<open>The elements that the spread \<open>[...v]\<close> iterates: of an array its elements, of a
  string its characters; anything else is not iterable.\<close>

fun spread :: "json \<Rightarrow> error + json list" where
  "spread (JArr xs) = Inr xs"
| "spread (JStr s) = Inr (map (\<lambda>c. JStr [c]) s)"
| "spread x = Inl TypeError"

text \<open>SameValueZero on parsed JSON: primitives by value; two objects or arrays of a
  parsed document are never the same object.\<close>

fun sameValueZero :: "json \<Rightarrow> json \<Rightarrow> bool" where
  "sameValueZero JNull JNull = True"
| "sameValueZero (JBool a) (JBool b) = (a = b)"
| "sameValueZero (JNum a) (JNum b) = (a = b)"
| "sameValueZero (JStr a) (JStr b) = (a = b)"
| "sameValueZero x y = False"

text \<open>\<open>JSON.parse(JSON.stringify(x))\<close> of a value of \<^typ>\<open>json\<close> is an equal value.\<close>

definition jsonClone :: "json \<Rightarrow> json" where
  "jsonClone x = x"

section \<open>Synthesis and patching (config-generator.ts)\<close>

text \<open>The port and extension blocks are the same text in \<open>generateConfig\<close> and in
  \<open>applyModifications\<close>.\<close>

definition mergePorts :: "json \<Rightarrow> int list \<Rightarrow> error + json" where
  "mergePorts cfg ps =
     (if length ps > 0 then
        bindE (getProp cfg ''forwardPorts'') (\<lambda>fp.
        bindE (spread (orElse fp (JArr []))) (\<lambda>existingPorts.
        setProp cfg ''forwardPorts''
          (JArr (newSet sameValueZero (existingPorts @ map JNum ps)))))
      else Inr cfg)"

definition mergeExtensions :: "json \<Rightarrow> string list \<Rightarrow> error + json" where
  "mergeExtensions cfg exts =
     (if length exts > 0 then
        bindE (ensure cfg [''customizations''] (JObj [])) (\<lambda>c1.
        bindE (ensure c1 [''customizations'', ''vscode''] (JObj [])) (\<lambda>c2.
        bindE (ensure c2 [''customizations'', ''vscode'', ''extensions''] (JArr [])) (\<lambda>c3.
        bindE (getPath c3 [''customizations'', ''vscode'', ''extensions'']) (\<lambda>e.
        bindE (spread (orElse e (JArr []))) (\<lambda>existingExtensions.
        setPath c3 [''customizations'', ''vscode'', ''extensions'']
          (JArr (newSet sameValueZero (existingExtensions @ map JStr exts))))))))
      else Inr cfg)"

text \<open>The \<open>switch\<close> on a database tag: the key it inserts, if any.\<close>

definition databaseFeature :: "string \<Rightarrow> string option" where
  "databaseFeature db =
     (if db = ''postgresql'' then Some ''ghcr.io/devcontainers/features/postgres:1''
      else if db = ''mongodb'' then Some ''ghcr.io/devcontainers/features/mongo:1''
      else if db = ''redis'' then Some ''ghcr.io/devcontainers/features/redis:1''
      else None)"

definition dockerFeature :: string where
  "dockerFeature = ''ghcr.io/devcontainers/features/docker-in-docker:2''"

definition gitFeature :: string where
  "gitFeature = ''ghcr.io/devcontainers/features/git:1''"

text \<open>\<open>config.features[key] = {}\<close>.\<close>

definition addFeature :: "json \<Rightarrow> string \<Rightarrow> error + json" where
  "addFeature cfg key = setPath cfg [''features'', key] (JObj [])"

fun addDatabases :: "json \<Rightarrow> string list \<Rightarrow> error + json" where
  "addDatabases cfg [] = Inr cfg"
| "addDatabases cfg (db # dbs) =
     (case databaseFeature db of
        None \<Rightarrow> addDatabases cfg dbs
      | Some key \<Rightarrow> bindE (addFeature cfg key) (\<lambda>cfg'. addDatabases cfg' dbs))"

text \<open>\<open>t.charAt(0).toUpperCase() + t.slice(1)\<close>. The upper case of \<open>0xDF\<close> is \<open>SS\<close>; the
  upper cases of \<open>0xFF\<close> and \<open>0xB5\<close> lie above 255 and the model keeps these two.\<close>

definition toUpperChar :: "char \<Rightarrow> string" where
  "toUpperChar c = (let n = (of_char c :: nat) in
     if (97 \<le> n \<and> n \<le> 122) \<or> (224 \<le> n \<and> n \<le> 254 \<and> n \<noteq> 247) then [char_of (n - 32)]
     else if n = 223 then ''SS''
     else [c])"

definition capitalize :: "string \<Rightarrow> string" where
  "capitalize t = (case t of [] \<Rightarrow> [] | c # cs \<Rightarrow> toUpperChar c @ cs)"

fun joinWith :: "string \<Rightarrow> string list \<Rightarrow> string" where
  "joinWith sep [] = []"
| "joinWith sep [x] = x"
| "joinWith sep (x # xs) = x @ sep @ joinWith sep xs"

definition stackName :: "string list \<Rightarrow> string list \<Rightarrow> string" where
  "stackName langs fws =
     (let techStack = take 3 (langs @ fws)
      in joinWith '' & '' (map capitalize techStack) @ '' Development'')"

text \<open>The three feature blocks and the renaming block of \<open>generateConfig\<close>.\<close>

definition addDatabaseFeatures :: "json \<Rightarrow> string list \<Rightarrow> error + json" where
  "addDatabaseFeatures cfg dbs =
     (if length dbs > 0
      then bindE (ensure cfg [''features''] (JObj [])) (\<lambda>c. addDatabases c dbs)
      else Inr cfg)"

definition addToolFeature :: "json \<Rightarrow> bool \<Rightarrow> string \<Rightarrow> error + json" where
  "addToolFeature cfg detected key =
     (if detected
      then bindE (ensure cfg [''features''] (JObj [])) (\<lambda>c. addFeature c key)
      else Inr cfg)"

definition updateName :: "json \<Rightarrow> PromptAnalysis \<Rightarrow> error + json" where
  "updateName cfg analysis =
     (if length (languages analysis) > 0 \<or> length (frameworks analysis) > 0
      then setProp cfg ''name'' (JStr (stackName (languages analysis) (frameworks analysis)))
      else Inr cfg)"

definition generateConfig :: "DevContainerTemplate \<Rightarrow> PromptAnalysis \<Rightarrow> error + json" where
  "generateConfig template analysis =
     bindE (mergePorts (jsonClone (JObj (config template))) (ports analysis)) (\<lambda>c1.
     bindE (mergeExtensions c1 (extensions analysis)) (\<lambda>c2.
     bindE (addDatabaseFeatures c2 (databases analysis)) (\<lambda>c3.
     bindE (addToolFeature c3 (''docker'' \<in> set (tools analysis)) dockerFeature) (\<lambda>c4.
     bindE (addToolFeature c4 (''git'' \<in> set (tools analysis)) gitFeature) (\<lambda>c5.
     updateName c5 analysis)))))"

definition applyModifications :: "json \<Rightarrow> PromptAnalysis \<Rightarrow> error + json" where
  "applyModifications cfg analysis =
     bindE (mergePorts (jsonClone cfg) (ports analysis)) (\<lambda>m1.
     bindE (mergeExtensions m1 (extensions analysis)) (\<lambda>m2.
     if length (databases analysis) > 0 \<or> length (tools analysis) > 0 then
       bindE (ensure m2 [''features''] (JObj [])) (\<lambda>m3.
       bindE (addDatabases m3 (databases analysis)) (\<lambda>m4.
       bindE (if ''docker'' \<in> set (tools analysis) then addFeature m4 dockerFeature
              else Inr m4) (\<lambda>m5.
       if ''git'' \<in> set (tools analysis) then addFeature m5 gitFeature else Inr m5)))
     else Inr m2))"

subsection \<open>modifyConfiguration\<close>

text \<open>
  The file system, as far as the engine sees it: a path holds a parsed JSON document, or
  something that \<open>readJson\<close> fails on, or nothing. \<open>path.join\<close> is modelled without the
  normalisation of the result.
\<close>

datatype fileContent = JsonFile json | OtherFile

type_synonym fileSystem = "string \<Rightarrow> fileContent option"

definition pathJoin :: "string list \<Rightarrow> string" where
  "pathJoin parts = joinWith ''/'' parts"

fun digitChar :: "nat \<Rightarrow> char" where
  "digitChar n = char_of (48 + n)"

fun natToString :: "nat \<Rightarrow> nat \<Rightarrow> string" where
  "natToString 0 n = []"
| "natToString (Suc fuel) n =
     (if n < 10 then [digitChar n] else natToString fuel (n div 10) @ [digitChar (n mod 10)])"

text \<open>\<open>String(n)\<close> of an integer \<open>n\<close>; a number below \<open>10^k\<close> needs \<open>k\<close> digits.\<close>

definition numberToString :: "int \<Rightarrow> string" where
  "numberToString n =
     (if n < 0 then CHR ''-'' # natToString (Suc (nat (- n))) (nat (- n))
      else natToString (Suc (nat n)) (nat n))"

definition generateModificationReasoning :: "PromptAnalysis \<Rightarrow> string" where
  "generateModificationReasoning analysis =
     (let changes =
        (if length (languages analysis) > 0
         then [''Added support for: '' @ joinWith '', '' (languages analysis)] else [])
        @ (if length (databases analysis) > 0
           then [''Added database features: '' @ joinWith '', '' (databases analysis)] else [])
        @ (if length (ports analysis) > 0
           then [''Added port forwarding: ''
                 @ joinWith '', '' (map numberToString (ports analysis))] else [])
        @ (if length (extensions analysis) > 0
           then [''Added VS Code extensions for detected technologies''] else [])
        @ (if length (tools analysis) > 0
           then [''Added development tools: '' @ joinWith '', '' (tools analysis)] else [])
      in if length changes > 0
         then ''Modified configuration: '' @ joinWith ''; '' changes @ ''.''
         else ''No applicable modifications found in the request.'')"

record GenerationResult =
  content :: json
  path :: string
  reasoning :: string
  template :: string
  analysis :: PromptAnalysis

text \<open>
  \<open>modifyConfiguration\<close> on the file system, which it returns as it leaves it: the result
  is the error thrown or the value returned.
\<close>

definition modifyConfiguration ::
    "fileSystem \<Rightarrow> string \<Rightarrow> string \<Rightarrow> (error + GenerationResult) \<times> fileSystem" where
  "modifyConfiguration fs workspaceRoot modifications =
     (let configPath = pathJoin [workspaceRoot, ''.devcontainer'', ''devcontainer.json'']
      in case fs configPath of
           None \<Rightarrow> (Inl (Error ''No existing devcontainer.json found''), fs)
         | Some OtherFile \<Rightarrow> (Inl ReadError, fs)
         | Some (JsonFile existingConfig) \<Rightarrow>
             (let a = analyzePrompt modifications
              in case applyModifications existingConfig a of
                   Inl e \<Rightarrow> (Inl e, fs)
                 | Inr modifiedConfig \<Rightarrow>
                     (Inr \<lparr> content = modifiedConfig, path = configPath,
                            reasoning = generateModificationReasoning a,
                            template = ''modified'', analysis = a \<rparr>,
                      fs(configPath \<mapsto> JsonFile modifiedConfig))))"

section \<open>Reading documents in statements\<close>

text \<open>The properties of a value that is an object; of anything else, none.\<close>

definition fieldsOf :: "json option \<Rightarrow> jobject" where
  "fieldsOf v = (case v of Some (JObj kvs) \<Rightarrow> kvs | _ \<Rightarrow> [])"

definition field :: "json \<Rightarrow> string \<Rightarrow> json option" where
  "field x k = map_of (fieldsOf (Some x)) k"

text \<open>The properties whose key is not in \<open>K\<close>, in their order.\<close>

definition without :: "string set \<Rightarrow> jobject \<Rightarrow> jobject" where
  "without K kvs = filter (\<lambda>p. fst p \<notin> K) kvs"

text \<open>The entries of the features block of a document.\<close>

definition featureEntries :: "json \<Rightarrow> jobject" where
  "featureEntries x = fieldsOf (field x ''features'')"

text \<open>The key that a tool tag inserts, if any (the two \<open>includes\<close> tests).\<close>

definition toolFeature :: "string \<Rightarrow> string option" where
  "toolFeature t =
     (if t = ''docker'' then Some dockerFeature
      else if t = ''git'' then Some gitFeature
      else None)"

text \<open>
  The shape of a configuration document in the data model: an object whose
  \<open>forwardPorts\<close>, if present, is a list, whose \<open>features\<close>, if present, is an object,
  and whose \<open>customizations\<close>, \<open>customizations.vscode\<close> and
  \<open>customizations.vscode.extensions\<close>, if present, are an object, an object and a list.
\<close>

definition absentOrArray :: "json option \<Rightarrow> bool" where
  "absentOrArray v = (case v of None \<Rightarrow> True | Some (JArr xs) \<Rightarrow> True | _ \<Rightarrow> False)"

definition absentOrObject :: "(jobject \<Rightarrow> bool) \<Rightarrow> json option \<Rightarrow> bool" where
  "absentOrObject P v = (case v of None \<Rightarrow> True | Some (JObj kvs) \<Rightarrow> P kvs | _ \<Rightarrow> False)"

definition isConfigDocument :: "json \<Rightarrow> bool" where
  "isConfigDocument doc =
     (case doc of
        JObj kvs \<Rightarrow>
          absentOrArray (map_of kvs ''forwardPorts'')
          \<and> absentOrObject (\<lambda>fs. True) (map_of kvs ''features'')
          \<and> absentOrObject (\<lambda>c.
                absentOrObject (\<lambda>v. absentOrArray (map_of v ''extensions''))
                  (map_of c ''vscode''))
              (map_of kvs ''customizations'')
      | _ \<Rightarrow> False)"

text \<open>The error of \<open>modifyConfiguration\<close> when there is no document.\<close>

definition ConfigNotFound :: error where
  "ConfigNotFound = Error ''No existing devcontainer.json found''"

text \<open>The value at a path of property names, if every step is there.\<close>

fun fieldAt :: "json \<Rightarrow> string list \<Rightarrow> json option" where
  "fieldAt x [] = Some x"
| "fieldAt x (k # ks) = (case field x k of None \<Rightarrow> None | Some y \<Rightarrow> fieldAt y ks)"

text \<open>
  \<open>framed x x'\<close>: outside the three merge targets \<open>forwardPorts\<close>,
  \<open>customizations.vscode.extensions\<close> and \<open>features\<close>, the document \<open>x'\<close> has the
  properties of \<open>x\<close>, with their values, in their order, at the top level, inside
  \<open>customizations\<close> and inside \<open>customizations.vscode\<close>.
\<close>

definition framed :: "json \<Rightarrow> json \<Rightarrow> bool" where
  "framed x x' =
     (without {''forwardPorts'', ''customizations'', ''features''} (fieldsOf (Some x'))
        = without {''forwardPorts'', ''customizations'', ''features''} (fieldsOf (Some x))
      \<and> without {''vscode''} (fieldsOf (fieldAt x' [''customizations'']))
        = without {''vscode''} (fieldsOf (fieldAt x [''customizations'']))
      \<and> without {''extensions''} (fieldsOf (fieldAt x' [''customizations'', ''vscode'']))
        = without {''extensions''} (fieldsOf (fieldAt x [''customizations'', ''vscode''])))"

text \<open>The feature keys that a feature set asks for.\<close>

definition requestedFeatures :: "PromptAnalysis \<Rightarrow> string set" where
  "requestedFeatures a =
     {k. \<exists>db\<in>set (databases a). databaseFeature db = Some k}
     \<union> {k. \<exists>t\<in>set (tools a). toolFeature t = Some k}"

text \<open>
  \<open>featuresAdded S x x'\<close>: the features block of \<open>x'\<close> is that of \<open>x\<close> with every key of
  \<open>S\<close> set to the empty object, and nothing else added or changed.
\<close>

definition featuresAdded :: "string set \<Rightarrow> json \<Rightarrow> json \<Rightarrow> bool" where
  "featuresAdded S x x' =
     ((\<forall>k. map_of (featureEntries x') k
            = (if k \<in> S then Some (JObj []) else map_of (featureEntries x) k))
      \<and> fst ` set (featureEntries x') = fst ` set (featureEntries x) \<union> S)"

text \<open>\<open>changedAt k x x'\<close>: \<open>x'\<close> is \<open>x\<close>, or \<open>x\<close> with its property \<open>k\<close> written.\<close>

definition changedAt :: "string \<Rightarrow> json \<Rightarrow> json \<Rightarrow> bool" where
  "changedAt k x x' = (x' = x \<or> (\<exists>kvs v. x = JObj kvs \<and> x' = JObj (AList.update k v kvs)))"

section \<open>Example inputs\<close>

text \<open>The document of the test suite and three feature sets, for the instances below.\<close>

definition databaseRequest :: PromptAnalysis where
  "databaseRequest =
     \<lparr>languages = [], frameworks = [], tools = [''git'', ''vim''],
      databases = [''postgresql'', ''mysql''], os = ''ubuntu'', ports = [], extensions = [],
      originalPrompt = ''Add PostgreSQL and MySQL support with vim and git''\<rparr>"

definition unsupportedRequest :: PromptAnalysis where
  "unsupportedRequest =
     \<lparr>languages = [], frameworks = [], tools = [''vim''], databases = [''mysql''],
      os = ''ubuntu'', ports = [], extensions = [],
      originalPrompt = ''add mysql and vim''\<rparr>"

definition portRequest :: PromptAnalysis where
  "portRequest =
     \<lparr>languages = [], frameworks = [], tools = [], databases = [], os = ''ubuntu'',
      ports = [8080], extensions = [], originalPrompt = ''open port 8080''\<rparr>"

definition testConfig :: json where
  "testConfig = JObj [
     (''name'', JStr ''Test Development''),
     (''image'', JStr ''mcr.microsoft.com/devcontainers/base:ubuntu''),
     (''features'', JObj []),
     (''customizations'', JObj [(''vscode'', JObj [(''extensions'', JArr [])])]),
     (''forwardPorts'', JArr [])]"

section \<open>Words and numbers in a text\<close>



section \<open>The same operations on a store\<close>

text \<open>
  JavaScript objects and arrays are mutable and shared by reference. Here they live in a
  store: a list of objects, the address of an object being its index; a value is a
  primitive or the address of an object; allocation appends.
\<close>

datatype hval = HNull | HBool bool | HNum int | HStr string | HRef nat

datatype hobj = HArr "hval list" | HObj "(string \<times> hval) list"

type_synonym heap = "hobj list"

text \<open>
  \<open>JSON.stringify\<close>, up to the text: the value as a tree. It keeps the stack of the
  objects it is inside of and throws on meeting one of them again (\<open>None\<close>, also for an
  address outside the store, which does not occur).
\<close>

function toJson :: "heap \<Rightarrow> nat list \<Rightarrow> hval \<Rightarrow> json option"
  and toJsonList :: "heap \<Rightarrow> nat list \<Rightarrow> hval list \<Rightarrow> json list option"
  and toJsonFields ::
    "heap \<Rightarrow> nat list \<Rightarrow> (string \<times> hval) list \<Rightarrow> (string \<times> json) list option" where
  "toJson h stk HNull = Some JNull"
| "toJson h stk (HBool b) = Some (JBool b)"
| "toJson h stk (HNum n) = Some (JNum n)"
| "toJson h stk (HStr s) = Some (JStr s)"
| "toJson h stk (HRef a) =
     (if a \<in> set stk \<or> length h \<le> a then None
      else case h ! a of
             HArr vs \<Rightarrow> map_option JArr (toJsonList h (a # stk) vs)
           | HObj kvs \<Rightarrow> map_option JObj (toJsonFields h (a # stk) kvs))"
| "toJsonList h stk [] = Some []"
| "toJsonList h stk (v # vs) =
     (case toJson h stk v of
        None \<Rightarrow> None
      | Some j \<Rightarrow> map_option ((#) j) (toJsonList h stk vs))"
| "toJsonFields h stk [] = Some []"
| "toJsonFields h stk ((k, v) # kvs) =
     (case toJson h stk v of
        None \<Rightarrow> None
      | Some j \<Rightarrow> map_option ((#) (k, j)) (toJsonFields h stk kvs))"
  by pat_completeness auto
termination
proof (relation "measures [
    (\<lambda>x. case x of Inl (h, stk, v) \<Rightarrow> card ({..<length h} - set stk)
              | Inr (Inl (h, stk, vs)) \<Rightarrow> card ({..<length h} - set stk)
              | Inr (Inr (h, stk, kvs)) \<Rightarrow> card ({..<length h} - set stk)),
    (\<lambda>x. case x of Inl (h, stk, v) \<Rightarrow> 0
              | Inr (Inl (h, stk, vs)) \<Rightarrow> Suc (length vs)
              | Inr (Inr (h, stk, kvs)) \<Rightarrow> Suc (length kvs))]", goal_cases)
  case 1
  show ?case by simp
next
  case (2 h stk a)
  then have in_old: "a \<in> {..<length h} - set stk" by simp
  have "{..<length h} - set (a # stk) = ({..<length h} - set stk) - {a}" by auto
  moreover have "finite ({..<length h} - set stk)" by simp
  ultimately have "card ({..<length h} - set (a # stk)) < card ({..<length h} - set stk)"
    using in_old by (simp only: card_Diff1_less)
  then show ?case by simp
next
  case (3 h stk a)
  then have in_old: "a \<in> {..<length h} - set stk" by simp
  have "{..<length h} - set (a # stk) = ({..<length h} - set stk) - {a}" by auto
  moreover have "finite ({..<length h} - set stk)" by simp
  ultimately have "card ({..<length h} - set (a # stk)) < card ({..<length h} - set stk)"
    using in_old by (simp only: card_Diff1_less)
  then show ?case by simp
qed simp_all

text \<open>\<open>JSON.parse\<close>, from the tree: every array and object of the tree is a new object
  of the store.\<close>

fun fromJson :: "json \<Rightarrow> heap \<Rightarrow> hval \<times> heap"
  and fromJsonList :: "json list \<Rightarrow> heap \<Rightarrow> hval list \<times> heap"
  and fromJsonFields ::
    "(string \<times> json) list \<Rightarrow> heap \<Rightarrow> (string \<times> hval) list \<times> heap" where
  "fromJson JNull h = (HNull, h)"
| "fromJson (JBool b) h = (HBool b, h)"
| "fromJson (JNum n) h = (HNum n, h)"
| "fromJson (JStr s) h = (HStr s, h)"
| "fromJson (JArr js) h =
     (case fromJsonList js h of (vs, h1) \<Rightarrow> (HRef (length h1), h1 @ [HArr vs]))"
| "fromJson (JObj kjs) h =
     (case fromJsonFields kjs h of (kvs, h1) \<Rightarrow> (HRef (length h1), h1 @ [HObj kvs]))"
| "fromJsonList [] h = ([], h)"
| "fromJsonList (j # js) h =
     (case fromJson j h of (v, h1) \<Rightarrow>
        case fromJsonList js h1 of (vs, h2) \<Rightarrow> (v # vs, h2))"
| "fromJsonFields [] h = ([], h)"
| "fromJsonFields ((k, j) # kjs) h =
     (case fromJson j h of (v, h1) \<Rightarrow>
        case fromJsonFields kjs h1 of (kvs, h2) \<Rightarrow> ((k, v) # kvs, h2))"

text \<open>A computation on the store returns a value and the store it leaves, or throws.\<close>

type_synonym 'a hm = "heap \<Rightarrow> error + ('a \<times> heap)"

definition hReturn :: "'a \<Rightarrow> 'a hm" where
  "hReturn x h = Inr (x, h)"

definition hBind :: "'a hm \<Rightarrow> ('a \<Rightarrow> 'b hm) \<Rightarrow> 'b hm" where
  "hBind m f h = (case m h of Inl e \<Rightarrow> Inl e | Inr (x, h') \<Rightarrow> f x h')"

text \<open>A new array or object.\<close>

definition hAlloc :: "hobj \<Rightarrow> hval hm" where
  "hAlloc ob h = Inr (HRef (length h), h @ [ob])"

text \<open>\<open>JSON.parse(JSON.stringify(v))\<close>.\<close>

definition hClone :: "hval \<Rightarrow> hval hm" where
  "hClone v h = (case toJson h [] v of None \<Rightarrow> Inl TypeError | Some j \<Rightarrow> Inr (fromJson j h))"

fun hTruthy :: "hval option \<Rightarrow> bool" where
  "hTruthy None = False"
| "hTruthy (Some HNull) = False"
| "hTruthy (Some (HBool b)) = b"
| "hTruthy (Some (HNum n)) = (n \<noteq> 0)"
| "hTruthy (Some (HStr s)) = (s \<noteq> [])"
| "hTruthy (Some (HRef a)) = True"

text \<open>Reading \<open>x.k\<close> and writing \<open>x.k = v\<close>: the write changes the object in place.\<close>

fun hGetProp :: "hval \<Rightarrow> string \<Rightarrow> hval option hm" where
  "hGetProp (HRef a) k h =
     (if a < length h
      then case h ! a of HObj kvs \<Rightarrow> Inr (map_of kvs k, h) | HArr vs \<Rightarrow> Inr (None, h)
      else Inl TypeError)"
| "hGetProp HNull k h = Inl TypeError"
| "hGetProp x k h = Inr (None, h)"

fun hSetProp :: "hval \<Rightarrow> string \<Rightarrow> hval \<Rightarrow> unit hm" where
  "hSetProp (HRef a) k v h =
     (if a < length h
      then case h ! a of
             HObj kvs \<Rightarrow> Inr ((), h[a := HObj (AList.update k v kvs)])
           | HArr vs \<Rightarrow> Inl ArrayProperty
      else Inl TypeError)"
| "hSetProp x k v h = Inl TypeError"

fun hGetPath :: "hval \<Rightarrow> string list \<Rightarrow> hval option hm" where
  "hGetPath x [] = hReturn (Some x)"
| "hGetPath x [k] = hGetProp x k"
| "hGetPath x (k # ks) =
     hBind (hGetProp x k) (\<lambda>v. case v of None \<Rightarrow> (\<lambda>h. Inl TypeError) | Some y \<Rightarrow> hGetPath y ks)"

fun hSetPath :: "hval \<Rightarrow> string list \<Rightarrow> hval \<Rightarrow> unit hm" where
  "hSetPath x [] v = hReturn ()"
| "hSetPath x [k] v = hSetProp x k v"
| "hSetPath x (k # ks) v =
     hBind (hGetProp x k) (\<lambda>c. case c of None \<Rightarrow> (\<lambda>h. Inl TypeError) | Some y \<Rightarrow> hSetPath y ks v)"

text \<open>\<open>if (!x.k1.k2) x.k1.k2 = {}\<close> (or \<open>[]\<close>).\<close>

definition hEnsure :: "hval \<Rightarrow> string list \<Rightarrow> hobj \<Rightarrow> unit hm" where
  "hEnsure x p ob =
     hBind (hGetPath x p) (\<lambda>v.
       if hTruthy v then hReturn () else hBind (hAlloc ob) (\<lambda>n. hSetPath x p n))"

text \<open>\<open>v || []\<close>.\<close>

definition hOrElseArray :: "hval option \<Rightarrow> hval hm" where
  "hOrElseArray v = (case v of Some x \<Rightarrow> if hTruthy v then hReturn x else hAlloc (HArr [])
                     | None \<Rightarrow> hAlloc (HArr []))"

fun hSpread :: "hval \<Rightarrow> hval list hm" where
  "hSpread (HRef a) h =
     (if a < length h
      then case h ! a of HArr vs \<Rightarrow> Inr (vs, h) | HObj kvs \<Rightarrow> Inl TypeError
      else Inl TypeError)"
| "hSpread (HStr s) h = Inr (map (\<lambda>c. HStr [c]) s, h)"
| "hSpread x h = Inl TypeError"

text \<open>
  The blocks of \<open>generateConfig\<close> on the object \<open>config\<close>. In a set, two values are the
  same when they are the same primitive or the same address. Of the arrays that a spread
  builds on the way, only the last is allocated.
\<close>

definition hMergePorts :: "hval \<Rightarrow> int list \<Rightarrow> unit hm" where
  "hMergePorts cfg ps =
     (if length ps > 0 then
        hBind (hGetProp cfg ''forwardPorts'') (\<lambda>fp.
        hBind (hOrElseArray fp) (\<lambda>existingPorts.
        hBind (hSpread existingPorts) (\<lambda>elems.
        hBind (hAlloc (HArr (newSet (=) (elems @ map HNum ps)))) (\<lambda>merged.
        hSetProp cfg ''forwardPorts'' merged))))
      else hReturn ())"

definition hMergeExtensions :: "hval \<Rightarrow> string list \<Rightarrow> unit hm" where
  "hMergeExtensions cfg exts =
     (if length exts > 0 then
        hBind (hEnsure cfg [''customizations''] (HObj [])) (\<lambda>_.
        hBind (hEnsure cfg [''customizations'', ''vscode''] (HObj [])) (\<lambda>_.
        hBind (hEnsure cfg [''customizations'', ''vscode'', ''extensions''] (HArr [])) (\<lambda>_.
        hBind (hGetPath cfg [''customizations'', ''vscode'', ''extensions'']) (\<lambda>e.
        hBind (hOrElseArray e) (\<lambda>existingExtensions.
        hBind (hSpread existingExtensions) (\<lambda>elems.
        hBind (hAlloc (HArr (newSet (=) (elems @ map HStr exts)))) (\<lambda>merged.
        hSetPath cfg [''customizations'', ''vscode'', ''extensions''] merged)))))))
      else hReturn ())"

definition hAddFeature :: "hval \<Rightarrow> string \<Rightarrow> unit hm" where
  "hAddFeature cfg key = hBind (hAlloc (HObj [])) (\<lambda>options. hSetPath cfg [''features'', key] options)"

fun hAddDatabases :: "hval \<Rightarrow> string list \<Rightarrow> unit hm" where
  "hAddDatabases cfg [] = hReturn ()"
| "hAddDatabases cfg (db # dbs) =
     (case databaseFeature db of
        None \<Rightarrow> hAddDatabases cfg dbs
      | Some key \<Rightarrow> hBind (hAddFeature cfg key) (\<lambda>_. hAddDatabases cfg dbs))"

definition hAddDatabaseFeatures :: "hval \<Rightarrow> string list \<Rightarrow> unit hm" where
  "hAddDatabaseFeatures cfg dbs =
     (if length dbs > 0
      then hBind (hEnsure cfg [''features''] (HObj [])) (\<lambda>_. hAddDatabases cfg dbs)
      else hReturn ())"

definition hAddToolFeature :: "hval \<Rightarrow> bool \<Rightarrow> string \<Rightarrow> unit hm" where
  "hAddToolFeature cfg detected key =
     (if detected
      then hBind (hEnsure cfg [''features''] (HObj [])) (\<lambda>_. hAddFeature cfg key)
      else hReturn ())"

definition hUpdateName :: "hval \<Rightarrow> PromptAnalysis \<Rightarrow> unit hm" where
  "hUpdateName cfg an =
     (if length (languages an) > 0 \<or> length (frameworks an) > 0
      then hSetProp cfg ''name'' (HStr (stackName (languages an) (frameworks an)))
      else hReturn ())"

text \<open>
  \<open>generateConfig\<close> on the store: \<open>templateConfig\<close> is the value of \<open>template.config\<close>, the
  object that the catalog holds; the result is the value of \<open>config\<close>.
\<close>

definition generateConfigStore :: "hval \<Rightarrow> PromptAnalysis \<Rightarrow> hval hm" where
  "generateConfigStore templateConfig an =
     hBind (hClone templateConfig) (\<lambda>cfg.
     hBind (hMergePorts cfg (ports an)) (\<lambda>_.
     hBind (hMergeExtensions cfg (extensions an)) (\<lambda>_.
     hBind (hAddDatabaseFeatures cfg (databases an)) (\<lambda>_.
     hBind (hAddToolFeature cfg (''docker'' \<in> set (tools an)) dockerFeature) (\<lambda>_.
     hBind (hAddToolFeature cfg (''git'' \<in> set (tools an)) gitFeature) (\<lambda>_.
     hBind (hUpdateName cfg an) (\<lambda>_.
     hReturn cfg)))))))"

text \<open>
  \<open>rep h v j F\<close>: in the store \<open>h\<close> the value \<open>v\<close> is the tree \<open>j\<close>, and the objects of the
  tree are the addresses \<open>F\<close>, each used once (no object is shared inside the tree).
\<close>

inductive rep :: "heap \<Rightarrow> hval \<Rightarrow> json \<Rightarrow> nat set \<Rightarrow> bool"
  and reps :: "heap \<Rightarrow> hval list \<Rightarrow> json list \<Rightarrow> nat set \<Rightarrow> bool"
  and repf :: "heap \<Rightarrow> (string \<times> hval) list \<Rightarrow> (string \<times> json) list \<Rightarrow> nat set \<Rightarrow> bool"
  for h :: heap where
  rep_null: "rep h HNull JNull {}"
| rep_bool: "rep h (HBool b) (JBool b) {}"
| rep_num: "rep h (HNum n) (JNum n) {}"
| rep_str: "rep h (HStr s) (JStr s) {}"
| rep_arr: "a < length h \<Longrightarrow> h ! a = HArr vs \<Longrightarrow> reps h vs js F \<Longrightarrow> a \<notin> F \<Longrightarrow>
     rep h (HRef a) (JArr js) (insert a F)"
| rep_obj: "a < length h \<Longrightarrow> h ! a = HObj kvs \<Longrightarrow> repf h kvs kjs F \<Longrightarrow> a \<notin> F \<Longrightarrow>
     rep h (HRef a) (JObj kjs) (insert a F)"
| reps_nil: "reps h [] [] {}"
| reps_cons: "rep h v j F \<Longrightarrow> reps h vs js G \<Longrightarrow> F \<inter> G = {} \<Longrightarrow>
     reps h (v # vs) (j # js) (F \<union> G)"
| repf_nil: "repf h [] [] {}"
| repf_cons: "rep h v j F \<Longrightarrow> repf h kvs kjs G \<Longrightarrow> F \<inter> G = {} \<Longrightarrow>
     repf h ((k, v) # kvs) ((k, j) # kjs) (F \<union> G)"

text \<open>A store that has grown by allocation only.\<close>

definition extends :: "heap \<Rightarrow> heap \<Rightarrow> bool" where
  "extends h h' = (\<exists>xs. h' = h @ xs)"

text \<open>An optional value of the store is an optional tree.\<close>

definition repo :: "heap \<Rightarrow> hval option \<Rightarrow> json option \<Rightarrow> nat set \<Rightarrow> bool" where
  "repo h vo jo F = (case jo of None \<Rightarrow> vo = None
                     | Some j \<Rightarrow> (\<exists>v Fv. vo = Some v \<and> rep h v j Fv \<and> Fv \<subseteq> F))"

text \<open>
  How a block may change the store around a tree with the objects \<open>F\<close>: it allocates, and
  it writes to no object outside \<open>F\<close>; the objects of the tree that it leaves, \<open>F'\<close>, are
  objects of \<open>F\<close> or new ones.
\<close>

definition evolves :: "heap \<Rightarrow> nat set \<Rightarrow> heap \<Rightarrow> nat set \<Rightarrow> bool" where
  "evolves h F h' F' =
     (length h \<le> length h' \<and> (\<forall>a<length h. a \<notin> F \<longrightarrow> h' ! a = h ! a)
      \<and> F' \<subseteq> F \<union> {length h..<length h'})"

text \<open>The block \<open>m\<close> on the object \<open>x\<close> of the store returns \<open>r\<close> and computes the tree \<open>J'\<close>.\<close>

definition simulates :: "heap \<Rightarrow> hval \<Rightarrow> nat set \<Rightarrow> 'a hm \<Rightarrow> 'a \<Rightarrow> json \<Rightarrow> bool" where
  "simulates h x F m r J' = (\<exists>h' F'. m h = Inr (r, h') \<and> rep h' x J' F' \<and> evolves h F h' F')"

section \<open>Template selection: proofs\<close>

lemma fold_count:
  "fold (\<lambda>x s. if P x then s + c else s) xs (s0::int) = s0 + c * int (length (filter P xs))"
  by (induction xs arbitrary: s0) (simp_all add: algebra_simps)

lemma templateScore_formula:
  "templateScore t langs fws =
     10 * int (length (filter (\<lambda>l. toLowerCase l \<in> set (DevContainerTemplate.languages t)) langs))
   + 5 * int (length (filter (\<lambda>f. toLowerCase f \<in> set (DevContainerTemplate.frameworks t)) fws))
   - (if name t = ''universal'' then 1 else 0)"
  by (simp add: templateScore_def rawScore_def languageLoop_def frameworkLoop_def fold_count)

lemma matchLoop_spec:
  "matchLoop ts l f (bm, bs) = (m, s) \<Longrightarrow>
    (m = bm \<and> s = bs \<and> (\<forall>t\<in>set ts. templateScore t l f \<le> bs)) \<or>
    (\<exists>i<length ts. m = Some (ts ! i) \<and> s = templateScore (ts ! i) l f \<and> bs < s \<and>
        (\<forall>j<i. templateScore (ts ! j) l f < s) \<and>
        (\<forall>j<length ts. templateScore (ts ! j) l f \<le> s))"
proof (induction ts arbitrary: bm bs)
  case Nil
  then show ?case by simp
next
  case (Cons t ts)
  let ?sc = "templateScore t l f"
  show ?case
  proof (cases "?sc > bs")
    case True
    with Cons.prems have run: "matchLoop ts l f (Some t, ?sc) = (m, s)" by simp
    from Cons.IH [OF run] show ?thesis
    proof
      assume a: "m = Some t \<and> s = ?sc \<and> (\<forall>u\<in>set ts. templateScore u l f \<le> ?sc)"
      have "\<forall>j<length (t # ts). templateScore ((t # ts) ! j) l f \<le> s"
        using a by (auto simp: nth_Cons' )
      with a True show ?thesis
        by (intro disjI2 exI [of _ 0]) simp
    next
      assume "\<exists>i<length ts. m = Some (ts ! i) \<and> s = templateScore (ts ! i) l f \<and> ?sc < s \<and>
        (\<forall>j<i. templateScore (ts ! j) l f < s) \<and>
        (\<forall>j<length ts. templateScore (ts ! j) l f \<le> s)"
      then obtain i where i: "i < length ts" "m = Some (ts ! i)" "s = templateScore (ts ! i) l f"
        "?sc < s" "\<forall>j<i. templateScore (ts ! j) l f < s"
        "\<forall>j<length ts. templateScore (ts ! j) l f \<le> s" by blast
      have "\<forall>j<Suc i. templateScore ((t # ts) ! j) l f < s"
        using i(4,5) by (auto simp: nth_Cons' less_Suc_eq_0_disj)
      moreover have "\<forall>j<length (t # ts). templateScore ((t # ts) ! j) l f \<le> s"
        using i(4,6) by (auto simp: nth_Cons' less_Suc_eq_0_disj)
      ultimately show ?thesis using i(1,2,3,4) True
        by (intro disjI2 exI [of _ "Suc i"]) simp
    qed
  next
    case False
    with Cons.prems have run: "matchLoop ts l f (bm, bs) = (m, s)" by simp
    from Cons.IH [OF run] show ?thesis
    proof
      assume "m = bm \<and> s = bs \<and> (\<forall>u\<in>set ts. templateScore u l f \<le> bs)"
      with False show ?thesis by auto
    next
      assume "\<exists>i<length ts. m = Some (ts ! i) \<and> s = templateScore (ts ! i) l f \<and> bs < s \<and>
        (\<forall>j<i. templateScore (ts ! j) l f < s) \<and>
        (\<forall>j<length ts. templateScore (ts ! j) l f \<le> s)"
      then obtain i where i: "i < length ts" "m = Some (ts ! i)" "s = templateScore (ts ! i) l f"
        "bs < s" "\<forall>j<i. templateScore (ts ! j) l f < s"
        "\<forall>j<length ts. templateScore (ts ! j) l f \<le> s" by blast
      have "\<forall>j<Suc i. templateScore ((t # ts) ! j) l f < s"
        using i(4,5) False by (auto simp: nth_Cons' less_Suc_eq_0_disj)
      moreover have "\<forall>j<length (t # ts). templateScore ((t # ts) ! j) l f \<le> s"
        using i(4,6) False by (auto simp: nth_Cons' less_Suc_eq_0_disj)
      ultimately show ?thesis using i(1,2,3,4)
        by (intro disjI2 exI [of _ "Suc i"]) simp
    qed
  qed
qed

lemma find_universal: "find (\<lambda>t. name t = ''universal'') templates = Some tplUniversal"
  by code_simp

lemma findBestMatch_positive:
  assumes "\<exists>t\<in>set templates. 0 < templateScore t l f"
  shows "\<exists>i<length templates. findBestMatch l f = Some (templates ! i) \<and>
     0 < templateScore (templates ! i) l f \<and>
     (\<forall>j<i. templateScore (templates ! j) l f < templateScore (templates ! i) l f) \<and>
     (\<forall>j<length templates. templateScore (templates ! j) l f \<le> templateScore (templates ! i) l f)"
proof -
  obtain m s where ms: "matchLoop templates l f (None, 0) = (m, s)" by (cases "matchLoop templates l f (None, 0)")
  from matchLoop_spec [OF ms] assms
  obtain i where i: "i < length templates" "m = Some (templates ! i)"
     "s = templateScore (templates ! i) l f" "0 < s"
     "\<forall>j<i. templateScore (templates ! j) l f < s"
     "\<forall>j<length templates. templateScore (templates ! j) l f \<le> s"
    by (auto simp: not_le [symmetric])
  from ms i(2,4) have "findBestMatch l f = Some (templates ! i)"
    by (simp add: findBestMatch_def findBestMatchIn_def)
  with i show ?thesis by blast
qed

lemma findBestMatch_fallback:
  assumes "\<forall>t\<in>set templates. templateScore t l f \<le> 0"
  shows "findBestMatch l f = Some tplUniversal"
proof -
  obtain m s where ms: "matchLoop templates l f (None, 0) = (m, s)" by (cases "matchLoop templates l f (None, 0)")
  from matchLoop_spec [OF ms] assms have "s = 0"
    by (auto simp: not_le [symmetric] dest: nth_mem)
  with ms show ?thesis
    by (simp add: findBestMatch_def findBestMatchIn_def find_universal)
qed

section \<open>Documents: proofs\<close>

lemma bindE_Inr_iff: "bindE m f = Inr y \<longleftrightarrow> (\<exists>x. m = Inr x \<and> f x = Inr y)"
  by (cases m) (simp_all add: bindE_def)

lemma bindE_simps [simp]: "bindE (Inl e) f = Inl e" "bindE (Inr x) f = f x"
  by (simp_all add: bindE_def)

lemma without_update: "k \<in> K \<Longrightarrow> without K (AList.update k v kvs) = without K kvs"
  by (induction kvs) (auto simp: without_def)

lemma map_of_without: "k \<notin> K \<Longrightarrow> map_of (without K kvs) k = map_of kvs k"
  by (induction kvs) (auto simp: without_def)

lemma getProp_field: "getProp x k = Inr v \<Longrightarrow> field x k = v"
  by (cases x) (auto simp: field_def fieldsOf_def)

lemma field_JObj [simp]: "field (JObj kvs) k = map_of kvs k"
  by (simp add: field_def fieldsOf_def)

lemma fieldsOf_simps [simp]:
  "fieldsOf None = []" "fieldsOf (Some (JObj kvs)) = kvs" "fieldsOf (Some JNull) = []"
  "fieldsOf (Some (JBool b)) = []" "fieldsOf (Some (JNum n)) = []"
  "fieldsOf (Some (JStr s)) = []" "fieldsOf (Some (JArr xs)) = []"
  by (simp_all add: fieldsOf_def)

lemma falsy_fieldsOf: "\<not> truthy v \<Longrightarrow> fieldsOf v = []"
  by (cases v rule: truthy.cases) simp_all

lemma setProp_Inr: "setProp x k v = Inr x' \<Longrightarrow> \<exists>kvs. x = JObj kvs \<and> x' = JObj (AList.update k v kvs)"
  by (cases x) auto


lemma changedAt_refl: "changedAt k x x" by (simp add: changedAt_def)

lemma changedAt_trans: "changedAt k x y \<Longrightarrow> changedAt k y z \<Longrightarrow> changedAt k x z"
  by (auto simp: changedAt_def)

lemma changedAt_without: "changedAt k x x' \<Longrightarrow> k \<in> K \<Longrightarrow>
   without K (fieldsOf (Some x')) = without K (fieldsOf (Some x))"
  by (auto simp: changedAt_def without_update)

lemma changedAt_field: "changedAt k x x' \<Longrightarrow> k' \<noteq> k \<Longrightarrow> field x' k' = field x k'"
  by (auto simp: changedAt_def update_conv')

lemma changedAt_obj: "changedAt k (JObj kvs) x' \<Longrightarrow> \<exists>kvs'. x' = JObj kvs'"
  by (auto simp: changedAt_def)

lemma setProp_changedAt: "setProp x k v = Inr x' \<Longrightarrow> changedAt k x x'"
  by (auto simp: changedAt_def dest: setProp_Inr)

lemma setProp_field: "setProp x k v = Inr x' \<Longrightarrow> field x' k = Some v"
  by (auto simp: update_conv' dest!: setProp_Inr)

lemma setPath_changedAt: "setPath x (k # ks) v = Inr x' \<Longrightarrow> changedAt k x x'"
  by (cases ks) (auto simp: bindE_Inr_iff setProp_changedAt split: option.splits)

lemma getProp_Inr_iff: "getProp x k = Inr v \<longleftrightarrow> x \<noteq> JNull \<and> field x k = v"
  by (cases x) (auto simp: field_def)

lemma setPath_nested:
  assumes "setPath x (k # k2 # ks) v = Inr x'"
  shows "\<exists>y y'. field x k = Some y \<and> field x' k = Some y' \<and> setPath y (k2 # ks) v = Inr y'"
proof -
  from assms obtain y y' where "getProp x k = Inr (Some y)" "setPath y (k2 # ks) v = Inr y'"
    "setProp x k y' = Inr x'"
    by (auto simp: bindE_Inr_iff split: option.splits)
  then show ?thesis
    by (auto simp: getProp_Inr_iff dest: setProp_field)
qed

lemma fieldAt1: "fieldAt x [a] = field x a"
  by (simp split: option.splits)

lemma fieldAt2: "fieldAt x [a, b] = (case field x a of None \<Rightarrow> None | Some y \<Rightarrow> field y b)"
  by (simp split: option.splits)

lemma fieldAt_Cons2: "fieldAt x (a # b # ks) = (case field x a of None \<Rightarrow> None | Some y \<Rightarrow> fieldAt y (b # ks))"
  by simp

lemma getPath_fieldAt: "getPath x p = Inr v \<Longrightarrow> p \<noteq> [] \<Longrightarrow> fieldAt x p = v"
proof (induction x p arbitrary: v rule: getPath.induct)
  case (1 x)
  then show ?case by simp
next
  case (2 x k)
  then show ?case by (simp add: getProp_Inr_iff fieldAt1 del: fieldAt.simps)
next
  case (3 x k k2 ks)
  from "3.prems" obtain y where y: "getProp x k = Inr (Some y)" "getPath y (k2 # ks) = Inr v"
    by (auto simp: bindE_Inr_iff split: option.splits)
  from y(1) have "field x k = Some y" by (simp add: getProp_Inr_iff)
  moreover from "3.IH" y(2) have "fieldAt y (k2 # ks) = v" by simp
  ultimately show ?case by (simp only: fieldAt_Cons2 option.case)
qed

lemma ensure_cases:
  "ensure x p d = Inr x' \<Longrightarrow> p \<noteq> [] \<Longrightarrow>
     (x' = x \<and> truthy (fieldAt x p)) \<or> (\<not> truthy (fieldAt x p) \<and> setPath x p d = Inr x')"
  by (auto simp: ensure_def bindE_Inr_iff split: if_splits dest: getPath_fieldAt)

lemma ensure_changedAt: "ensure x (k # ks) d = Inr x' \<Longrightarrow> changedAt k x x'"
  by (auto dest!: ensure_cases simp: changedAt_refl setPath_changedAt)

lemma mergePorts_changedAt: "mergePorts x ps = Inr x' \<Longrightarrow> changedAt ''forwardPorts'' x x'"
  by (auto simp: mergePorts_def bindE_Inr_iff changedAt_refl setProp_changedAt split: if_splits)

lemma mergeExtensions_changedAt:
  assumes "mergeExtensions x es = Inr x'"
  shows "changedAt ''customizations'' x x'"
proof (cases "length es > 0")
  case False
  with assms show ?thesis by (simp add: mergeExtensions_def changedAt_refl)
next
  case True
  with assms obtain c1 c2 c3 v where
    s1: "ensure x [''customizations''] (JObj []) = Inr c1" and
    s2: "ensure c1 [''customizations'', ''vscode''] (JObj []) = Inr c2" and
    s3: "ensure c2 [''customizations'', ''vscode'', ''extensions''] (JArr []) = Inr c3" and
    s4: "setPath c3 [''customizations'', ''vscode'', ''extensions''] v = Inr x'"
    by (auto simp: mergeExtensions_def bindE_Inr_iff)
  from ensure_changedAt [OF s1] ensure_changedAt [OF s2] ensure_changedAt [OF s3]
    setPath_changedAt [OF s4]
  show ?thesis by (blast intro: changedAt_trans)
qed

lemma addFeature_changedAt: "addFeature x key = Inr x' \<Longrightarrow> changedAt ''features'' x x'"
  unfolding addFeature_def by (rule setPath_changedAt)

lemma addDatabases_changedAt: "addDatabases x dbs = Inr x' \<Longrightarrow> changedAt ''features'' x x'"
proof (induction dbs arbitrary: x)
  case Nil
  then show ?case by (simp add: changedAt_refl)
next
  case (Cons db dbs)
  then show ?case
    by (auto simp: bindE_Inr_iff split: option.splits
        dest!: addFeature_changedAt intro: changedAt_trans)
qed

subsection \<open>framed\<close>

lemma framed_refl: "framed x x" by (simp add: framed_def)

lemma framed_trans: "framed x y \<Longrightarrow> framed y z \<Longrightarrow> framed x z"
  by (simp add: framed_def)

lemma changedAt_framed:
  assumes "changedAt k x x'" "k = ''forwardPorts'' \<or> k = ''features''"
  shows "framed x x'"
proof -
  from assms have "k \<noteq> ''customizations''" by auto
  with assms(1) have "field x' ''customizations'' = field x ''customizations''"
    by (simp add: changedAt_field)
  then have "\<And>ks. fieldAt x' (''customizations'' # ks) = fieldAt x (''customizations'' # ks)"
    by simp
  moreover have "without {''forwardPorts'', ''customizations'', ''features''} (fieldsOf (Some x'))
        = without {''forwardPorts'', ''customizations'', ''features''} (fieldsOf (Some x))"
    using assms(1) by (rule changedAt_without) (use assms(2) in auto)
  ultimately show ?thesis by (simp add: framed_def)
qed

lemma framed_nested:
  assumes top: "changedAt ''customizations'' x x'"
    and c1: "without {''vscode''} (fieldsOf (field x' ''customizations''))
        = without {''vscode''} (fieldsOf (field x ''customizations''))"
    and c2: "without {''extensions''} (fieldsOf (fieldAt x' [''customizations'', ''vscode'']))
        = without {''extensions''} (fieldsOf (fieldAt x [''customizations'', ''vscode'']))"
  shows "framed x x'"
proof -
  from top have "without {''forwardPorts'', ''customizations'', ''features''} (fieldsOf (Some x'))
        = without {''forwardPorts'', ''customizations'', ''features''} (fieldsOf (Some x))"
    by (auto intro!: changedAt_without)
  then show ?thesis using c1 c2 by (simp add: framed_def fieldAt1 del: fieldAt.simps)
qed

lemma ensure_customizations_framed:
  assumes "ensure x [''customizations''] (JObj []) = Inr x'"
  shows "framed x x'"
proof -
  have "[''customizations''] \<noteq> []" by simp
  from ensure_cases [OF assms this] show ?thesis
  proof
    assume "x' = x \<and> truthy (fieldAt x [''customizations''])"
    then show ?thesis by (simp add: framed_refl)
  next
    assume a: "\<not> truthy (fieldAt x [''customizations'']) \<and> setPath x [''customizations''] (JObj []) = Inr x'"
    then have f: "fieldsOf (field x ''customizations'') = []"
      by (auto simp: fieldAt1 simp del: fieldAt.simps dest!: falsy_fieldsOf)
    from a have s: "setProp x ''customizations'' (JObj []) = Inr x'" by simp
    then have n: "field x' ''customizations'' = Some (JObj [])" by (rule setProp_field)
    have "fieldAt x [''customizations'', ''vscode''] = None \<or> fieldsOf (fieldAt x [''customizations'', ''vscode'']) = []"
      using f by (auto simp: fieldAt2 field_def simp del: fieldAt.simps split: option.splits)
    then have "fieldsOf (fieldAt x [''customizations'', ''vscode'']) = []" by auto
    moreover have "fieldsOf (fieldAt x' [''customizations'', ''vscode'']) = []"
      using n by (simp add: fieldAt2 del: fieldAt.simps)
    ultimately show ?thesis
      using f n setProp_changedAt [OF s] by (intro framed_nested) simp_all
  qed
qed

lemma setPath_vscode_framed:
  assumes s: "setPath x [''customizations'', ''vscode''] (JObj []) = Inr x'"
    and f: "\<not> truthy (fieldAt x [''customizations'', ''vscode''])"
  shows "framed x x'"
proof -
  from setPath_nested [OF s] obtain y y' where
    y: "field x ''customizations'' = Some y" "field x' ''customizations'' = Some y'"
      "setPath y [''vscode''] (JObj []) = Inr y'" by blast
  from y(3) have sp: "setProp y ''vscode'' (JObj []) = Inr y'" by simp
  from f y(1) have "fieldsOf (field y ''vscode'') = []"
    by (auto simp: fieldAt2 simp del: fieldAt.simps dest!: falsy_fieldsOf)
  moreover from sp have "field y' ''vscode'' = Some (JObj [])" by (rule setProp_field)
  moreover from sp have "without {''vscode''} (fieldsOf (Some y')) = without {''vscode''} (fieldsOf (Some y))"
    by (auto intro!: changedAt_without setProp_changedAt)
  ultimately show ?thesis using y(1,2) setPath_changedAt [OF s]
    by (intro framed_nested) (simp_all add: fieldAt2 del: fieldAt.simps)
qed

lemma setPath_extensions_framed:
  assumes s: "setPath x [''customizations'', ''vscode'', ''extensions''] v = Inr x'"
  shows "framed x x'"
proof -
  from setPath_nested [OF s] obtain y y' where
    y: "field x ''customizations'' = Some y" "field x' ''customizations'' = Some y'"
      "setPath y [''vscode'', ''extensions''] v = Inr y'" by blast
  from setPath_nested [OF y(3)] obtain z z' where
    z: "field y ''vscode'' = Some z" "field y' ''vscode'' = Some z'"
      "setPath z [''extensions''] v = Inr z'" by blast
  from z(3) have "changedAt ''extensions'' z z'" by (rule setPath_changedAt)
  then have "without {''extensions''} (fieldsOf (Some z')) = without {''extensions''} (fieldsOf (Some z))"
    by (auto intro!: changedAt_without)
  moreover from setPath_changedAt [OF y(3)]
  have "without {''vscode''} (fieldsOf (Some y')) = without {''vscode''} (fieldsOf (Some y))"
    by (auto intro!: changedAt_without)
  ultimately show ?thesis using y(1,2) z(1,2) setPath_changedAt [OF s]
    by (intro framed_nested) (simp_all add: fieldAt2 del: fieldAt.simps)
qed

lemma mergeExtensions_framed:
  assumes "mergeExtensions x es = Inr x'"
  shows "framed x x'"
proof (cases "length es > 0")
  case False
  with assms show ?thesis by (simp add: mergeExtensions_def framed_refl)
next
  case True
  with assms obtain c1 c2 c3 v where
    s1: "ensure x [''customizations''] (JObj []) = Inr c1" and
    s2: "ensure c1 [''customizations'', ''vscode''] (JObj []) = Inr c2" and
    s3: "ensure c2 [''customizations'', ''vscode'', ''extensions''] (JArr []) = Inr c3" and
    s4: "setPath c3 [''customizations'', ''vscode'', ''extensions''] v = Inr x'"
    by (auto simp: mergeExtensions_def bindE_Inr_iff)
  have f1: "framed x c1" using s1 by (rule ensure_customizations_framed)
  have f2: "framed c1 c2" using ensure_cases [OF s2]
    by (auto simp: framed_refl intro: setPath_vscode_framed)
  have f3: "framed c2 c3" using ensure_cases [OF s3]
    by (auto simp: framed_refl intro: setPath_extensions_framed)
  have f4: "framed c3 x'" using s4 by (rule setPath_extensions_framed)
  from f1 f2 f3 f4 show ?thesis by (blast intro: framed_trans)
qed

lemma applyModifications_framed:
  assumes "applyModifications x a = Inr x'"
  shows "framed x x'"
proof -
  from assms obtain m1 m2 where
    m1: "mergePorts x (ports a) = Inr m1" and
    m2: "mergeExtensions m1 (extensions a) = Inr m2" and
    rest: "(if length (databases a) > 0 \<or> length (tools a) > 0 then
       bindE (ensure m2 [''features''] (JObj [])) (\<lambda>m3.
       bindE (addDatabases m3 (databases a)) (\<lambda>m4.
       bindE (if ''docker'' \<in> set (tools a) then addFeature m4 dockerFeature
              else Inr m4) (\<lambda>m5.
       if ''git'' \<in> set (tools a) then addFeature m5 gitFeature else Inr m5)))
     else Inr m2) = Inr x'"
    by (auto simp: applyModifications_def jsonClone_def bindE_Inr_iff)
  have f1: "framed x m1"
    using mergePorts_changedAt [OF m1] by (rule changedAt_framed) simp
  have f2: "framed m1 m2" using m2 by (rule mergeExtensions_framed)
  have "changedAt ''features'' m2 x'"
    using rest
    by (auto simp: bindE_Inr_iff changedAt_refl split: if_splits
        dest!: ensure_changedAt addDatabases_changedAt addFeature_changedAt
        intro: changedAt_trans)
  then have f3: "framed m2 x'" by (rule changedAt_framed) simp
  from f1 f2 f3 show ?thesis by (blast intro: framed_trans)
qed

subsection \<open>newSet\<close>

lemma newSet_foldl_eq:
  "distinct acc \<Longrightarrow>
   distinct (foldl (\<lambda>acc x. if list_ex (\<lambda>y. y = x) acc then acc else acc @ [x]) acc xs)
   \<and> set (foldl (\<lambda>acc x. if list_ex (\<lambda>y. y = x) acc then acc else acc @ [x]) acc xs)
       = set acc \<union> set xs"
  by (induction xs arbitrary: acc) (auto simp: list_ex_iff)

lemma distinct_newSet: "distinct (newSet (=) xs)"
  using newSet_foldl_eq [of "[]" xs] by (simp add: newSet_def)

lemma set_newSet: "set (newSet (=) xs) = set xs"
  using newSet_foldl_eq [of "[]" xs] by (simp add: newSet_def)

lemma newSet_foldl_JNum:
  "foldl (\<lambda>acc x. if list_ex (\<lambda>y. sameValueZero y x) acc then acc else acc @ [x])
      (map JNum acc) (map JNum ns)
   = map JNum (foldl (\<lambda>acc x. if list_ex (\<lambda>y. y = x) acc then acc else acc @ [x]) acc ns)"
proof (induction ns arbitrary: acc)
  case Nil
  then show ?case by simp
next
  case (Cons n ns)
  have "list_ex (\<lambda>y. sameValueZero y (JNum n)) (map JNum acc) = list_ex (\<lambda>y. y = n) acc"
    by (simp add: list_ex_iff)
  moreover have "map JNum acc @ [JNum n] = map JNum (acc @ [n])" by simp
  ultimately show ?case using Cons.IH [of acc] Cons.IH [of "acc @ [n]"]
    by (simp del: map_append)
qed

lemma newSet_JNum: "newSet sameValueZero (map JNum ns) = map JNum (newSet (=) ns)"
  using newSet_foldl_JNum [of "[]" ns] by (simp add: newSet_def)

subsection \<open>Ports\<close>

lemma mergePorts_empty: "mergePorts x [] = Inr x"
  by (simp add: mergePorts_def)

lemma mergePorts_numbers:
  assumes "ps \<noteq> []"
    and "field (JObj kvs) ''forwardPorts'' = None \<and> old = []
         \<or> field (JObj kvs) ''forwardPorts'' = Some (JArr (map JNum old))"
  shows "mergePorts (JObj kvs) ps
     = Inr (JObj (AList.update ''forwardPorts'' (JArr (map JNum (newSet (=) (old @ ps)))) kvs))"
  using assms newSet_JNum [of "old @ ps"]
  by (auto simp: mergePorts_def orElse_def)

subsection \<open>Features\<close>

lemma featuresAdded_refl: "featuresAdded {} x x"
  by (simp add: featuresAdded_def)

lemma featuresAdded_trans:
  "featuresAdded S x y \<Longrightarrow> featuresAdded T y z \<Longrightarrow> featuresAdded (S \<union> T) x z"
  by (auto simp: featuresAdded_def)

lemma featuresAdded_same:
  "featureEntries x' = featureEntries x \<Longrightarrow> featuresAdded {} x x'"
  by (simp add: featuresAdded_def)

lemma changedAt_featuresAdded:
  "changedAt k x x' \<Longrightarrow> k \<noteq> ''features'' \<Longrightarrow> featuresAdded {} x x'"
  by (rule featuresAdded_same) (simp add: featureEntries_def changedAt_field)

lemma truthy_present: "truthy v \<Longrightarrow> v \<noteq> None"
  by (cases v) auto

lemma ensure_features:
  assumes "ensure x [''features''] (JObj []) = Inr x'"
  shows "featureEntries x' = featureEntries x" "field x' ''features'' \<noteq> None"
    "field x ''features'' = None \<Longrightarrow> field x' ''features'' = Some (JObj [])"
proof -
  have "[''features''] \<noteq> []" by simp
  from ensure_cases [OF assms this]
  have c: "(x' = x \<and> truthy (field x ''features'')) \<or>
     (\<not> truthy (field x ''features'') \<and> setProp x ''features'' (JObj []) = Inr x')"
    by (simp add: fieldAt1 del: fieldAt.simps)
  then show "featureEntries x' = featureEntries x"
    by (auto simp: featureEntries_def dest!: falsy_fieldsOf setProp_field)
  from c show "field x' ''features'' \<noteq> None"
    by (auto dest!: setProp_field truthy_present)
  from c show "field x ''features'' = None \<Longrightarrow> field x' ''features'' = Some (JObj [])"
    by (auto dest!: setProp_field)
qed

lemma addFeature_entries:
  assumes "addFeature x key = Inr x'"
  shows "\<exists>fs. field x ''features'' = Some (JObj fs)
      \<and> field x' ''features'' = Some (JObj (AList.update key (JObj []) fs))"
proof -
  from assms have "setPath x [''features'', key] (JObj []) = Inr x'"
    by (simp add: addFeature_def)
  from setPath_nested [OF this] obtain y y' where
    y: "field x ''features'' = Some y" "field x' ''features'' = Some y'"
       "setPath y [key] (JObj []) = Inr y'" by blast
  from y(3) have "setProp y key (JObj []) = Inr y'" by simp
  from setProp_Inr [OF this] y(1,2) show ?thesis by auto
qed

lemma addFeature_featuresAdded:
  assumes "addFeature x key = Inr x'"
  shows "featuresAdded {key} x x'"
proof -
  from addFeature_entries [OF assms] obtain fs where
    fs: "field x ''features'' = Some (JObj fs)"
        "field x' ''features'' = Some (JObj (AList.update key (JObj []) fs))" by blast
  have "fst ` set (AList.update key (JObj []) fs) = fst ` set fs \<union> {key}"
    by (simp only: dom_update Un_commute)
  with fs show ?thesis
    by (simp add: featuresAdded_def featureEntries_def update_conv')
qed

lemma addFeature_present: "addFeature x key = Inr x' \<Longrightarrow> field x' ''features'' \<noteq> None"
  by (auto dest!: addFeature_entries)

lemma addDatabases_featuresAdded:
  "addDatabases x dbs = Inr x' \<Longrightarrow>
     featuresAdded {k. \<exists>db\<in>set dbs. databaseFeature db = Some k} x x'"
proof (induction dbs arbitrary: x)
  case Nil
  then show ?case by (simp add: featuresAdded_refl)
next
  case (Cons db dbs)
  show ?case
  proof (cases "databaseFeature db")
    case None
    with Cons.prems have "addDatabases x dbs = Inr x'" by simp
    from Cons.IH [OF this] None show ?thesis by simp
  next
    case (Some key)
    with Cons.prems obtain y where y: "addFeature x key = Inr y" "addDatabases y dbs = Inr x'"
      by (auto simp: bindE_Inr_iff)
    have "{k. \<exists>d\<in>set (db # dbs). databaseFeature d = Some k}
        = {key} \<union> {k. \<exists>d\<in>set dbs. databaseFeature d = Some k}"
      using Some by auto
    with featuresAdded_trans [OF addFeature_featuresAdded [OF y(1)] Cons.IH [OF y(2)]]
    show ?thesis by simp
  qed
qed

lemma addDatabases_present:
  "addDatabases x dbs = Inr x' \<Longrightarrow> field x ''features'' \<noteq> None \<Longrightarrow> field x' ''features'' \<noteq> None"
proof (induction dbs arbitrary: x)
  case Nil
  then show ?case by simp
next
  case (Cons db dbs)
  then show ?case
    by (cases "databaseFeature db") (auto simp: bindE_Inr_iff dest: addFeature_present)
qed

lemma addDatabases_unsupported:
  "\<forall>db\<in>set dbs. databaseFeature db = None \<Longrightarrow> addDatabases x dbs = Inr x"
  by (induction dbs) simp_all

lemma toolFeature_Some: "toolFeature t = Some k \<longleftrightarrow>
      (t = ''docker'' \<and> dockerFeature = k) \<or> (t = ''git'' \<and> gitFeature = k)"
  unfolding toolFeature_def
  by (cases "t = ''docker''"; cases "t = ''git''") simp_all

lemma toolFeature_Collect: "{k. \<exists>t\<in>set ts. toolFeature t = Some k}
      = {k. ''docker'' \<in> set ts \<and> dockerFeature = k} \<union> {k. ''git'' \<in> set ts \<and> gitFeature = k}"
proof (rule set_eqI)
  fix k
  show "k \<in> {k. \<exists>t\<in>set ts. toolFeature t = Some k} \<longleftrightarrow>
     k \<in> {k. ''docker'' \<in> set ts \<and> dockerFeature = k} \<union> {k. ''git'' \<in> set ts \<and> gitFeature = k}"
    unfolding mem_Collect_eq Un_iff toolFeature_Some by blast
qed

lemma docker_Collect:
  "{k. ''docker'' \<in> set ts \<and> dockerFeature = k} = (if ''docker'' \<in> set ts then {dockerFeature} else {})"
  by (cases "''docker'' \<in> set ts") auto

lemma git_Collect:
  "{k. ''git'' \<in> set ts \<and> gitFeature = k} = (if ''git'' \<in> set ts then {gitFeature} else {})"
  by (cases "''git'' \<in> set ts") auto

lemma toolFeature_set:
  "{k. \<exists>t\<in>set ts. toolFeature t = Some k}
     = (if ''docker'' \<in> set ts then {dockerFeature} else {})
       \<union> (if ''git'' \<in> set ts then {gitFeature} else {})"
  by (simp only: toolFeature_Collect docker_Collect git_Collect)

lemma applyModifications_steps:
  assumes "applyModifications x a = Inr x'"
  obtains m1 m2 where
    "mergePorts x (ports a) = Inr m1" "mergeExtensions m1 (extensions a) = Inr m2"
    "(databases a = [] \<and> tools a = [] \<and> x' = m2) \<or>
     ((databases a \<noteq> [] \<or> tools a \<noteq> []) \<and> (\<exists>m3 m4 m5.
        ensure m2 [''features''] (JObj []) = Inr m3 \<and>
        addDatabases m3 (databases a) = Inr m4 \<and>
        (if ''docker'' \<in> set (tools a) then addFeature m4 dockerFeature else Inr m4) = Inr m5 \<and>
        (if ''git'' \<in> set (tools a) then addFeature m5 gitFeature else Inr m5) = Inr x'))"
proof -
  from assms obtain m1 m2 where
    m: "mergePorts x (ports a) = Inr m1" "mergeExtensions m1 (extensions a) = Inr m2" and
    rest: "(if length (databases a) > 0 \<or> length (tools a) > 0 then
       bindE (ensure m2 [''features''] (JObj [])) (\<lambda>m3.
       bindE (addDatabases m3 (databases a)) (\<lambda>m4.
       bindE (if ''docker'' \<in> set (tools a) then addFeature m4 dockerFeature
              else Inr m4) (\<lambda>m5.
       if ''git'' \<in> set (tools a) then addFeature m5 gitFeature else Inr m5)))
     else Inr m2) = Inr x'"
    by (auto simp: applyModifications_def jsonClone_def bindE_Inr_iff)
  show thesis
  proof (cases "databases a = [] \<and> tools a = []")
    case True
    with rest have "x' = m2" by simp
    with True m that show thesis by blast
  next
    case False
    with rest have "bindE (ensure m2 [''features''] (JObj [])) (\<lambda>m3.
       bindE (addDatabases m3 (databases a)) (\<lambda>m4.
       bindE (if ''docker'' \<in> set (tools a) then addFeature m4 dockerFeature
              else Inr m4) (\<lambda>m5.
       if ''git'' \<in> set (tools a) then addFeature m5 gitFeature else Inr m5))) = Inr x'"
      by (simp split: if_splits)
    then have "\<exists>m3 m4 m5.
        ensure m2 [''features''] (JObj []) = Inr m3 \<and>
        addDatabases m3 (databases a) = Inr m4 \<and>
        (if ''docker'' \<in> set (tools a) then addFeature m4 dockerFeature else Inr m4) = Inr m5 \<and>
        (if ''git'' \<in> set (tools a) then addFeature m5 gitFeature else Inr m5) = Inr x'"
      by (simp only: bindE_Inr_iff) blast
    with False m that show thesis by blast
  qed
qed

lemma tool_step_featuresAdded:
  "(if t \<in> set ts then addFeature x key else Inr x) = Inr x' \<Longrightarrow>
     featuresAdded (if t \<in> set ts then {key} else {}) x x'"
  by (auto simp: featuresAdded_refl addFeature_featuresAdded split: if_splits)

lemma applyModifications_featuresAdded:
  assumes "applyModifications x a = Inr x'"
  shows "featuresAdded (requestedFeatures a) x x'"
proof -
  from assms obtain m1 m2 where
    m1: "mergePorts x (ports a) = Inr m1" and m2: "mergeExtensions m1 (extensions a) = Inr m2" and
    rest: "(databases a = [] \<and> tools a = [] \<and> x' = m2) \<or>
     ((databases a \<noteq> [] \<or> tools a \<noteq> []) \<and> (\<exists>m3 m4 m5.
        ensure m2 [''features''] (JObj []) = Inr m3 \<and>
        addDatabases m3 (databases a) = Inr m4 \<and>
        (if ''docker'' \<in> set (tools a) then addFeature m4 dockerFeature else Inr m4) = Inr m5 \<and>
        (if ''git'' \<in> set (tools a) then addFeature m5 gitFeature else Inr m5) = Inr x'))"
    by (rule applyModifications_steps)
  have a1: "featuresAdded {} x m1"
    using mergePorts_changedAt [OF m1] by (rule changedAt_featuresAdded) simp
  have a2: "featuresAdded {} m1 m2"
    using mergeExtensions_changedAt [OF m2] by (rule changedAt_featuresAdded) simp
  from featuresAdded_trans [OF a1 a2] have a12: "featuresAdded {} x m2" by simp
  from rest show ?thesis
  proof
    assume "databases a = [] \<and> tools a = [] \<and> x' = m2"
    with a12 show ?thesis by (simp add: requestedFeatures_def)
  next
    assume "(databases a \<noteq> [] \<or> tools a \<noteq> []) \<and> (\<exists>m3 m4 m5.
        ensure m2 [''features''] (JObj []) = Inr m3 \<and>
        addDatabases m3 (databases a) = Inr m4 \<and>
        (if ''docker'' \<in> set (tools a) then addFeature m4 dockerFeature else Inr m4) = Inr m5 \<and>
        (if ''git'' \<in> set (tools a) then addFeature m5 gitFeature else Inr m5) = Inr x')"
    then obtain m3 m4 m5 where
      s3: "ensure m2 [''features''] (JObj []) = Inr m3" and
      s4: "addDatabases m3 (databases a) = Inr m4" and
      s5: "(if ''docker'' \<in> set (tools a) then addFeature m4 dockerFeature else Inr m4) = Inr m5" and
      s6: "(if ''git'' \<in> set (tools a) then addFeature m5 gitFeature else Inr m5) = Inr x'"
      by blast
    have a3: "featuresAdded {} m2 m3"
      using ensure_features(1) [OF s3] by (rule featuresAdded_same)
    note a4 = addDatabases_featuresAdded [OF s4]
    note a5 = tool_step_featuresAdded [OF s5]
    note a6 = tool_step_featuresAdded [OF s6]
    from featuresAdded_trans [OF featuresAdded_trans [OF featuresAdded_trans [OF
          featuresAdded_trans [OF a12 a3] a4] a5] a6]
    show ?thesis
      by (simp add: requestedFeatures_def toolFeature_set Un_assoc)
  qed
qed

subsection \<open>Totality on configuration documents\<close>

lemma absentOrArray_iff: "absentOrArray v \<longleftrightarrow> v = None \<or> (\<exists>xs. v = Some (JArr xs))"
  by (auto simp: absentOrArray_def split: option.splits json.splits)

lemma absentOrObject_iff:
  "absentOrObject P v \<longleftrightarrow> v = None \<or> (\<exists>kvs. v = Some (JObj kvs) \<and> P kvs)"
  by (auto simp: absentOrObject_def split: option.splits json.splits)

lemma isConfigDocument_iff:
  "isConfigDocument x \<longleftrightarrow> (\<exists>kvs. x = JObj kvs
     \<and> absentOrArray (map_of kvs ''forwardPorts'')
     \<and> absentOrObject (\<lambda>fs. True) (map_of kvs ''features'')
     \<and> absentOrObject (\<lambda>c. absentOrObject (\<lambda>v. absentOrArray (map_of v ''extensions''))
                  (map_of c ''vscode'')) (map_of kvs ''customizations''))"
  by (cases x) (simp_all add: isConfigDocument_def)

lemma isConfigDocument_update:
  assumes "isConfigDocument (JObj kvs)"
    and "k = ''forwardPorts'' \<longrightarrow> (\<exists>xs. v = JArr xs)"
    and "k = ''features'' \<longrightarrow> (\<exists>fs. v = JObj fs)"
    and "k = ''customizations'' \<longrightarrow> (\<exists>c. v = JObj c \<and>
           absentOrObject (\<lambda>v. absentOrArray (map_of v ''extensions'')) (map_of c ''vscode''))"
  shows "isConfigDocument (JObj (AList.update k v kvs))"
  using assms
  by (auto simp: isConfigDocument_iff update_conv' absentOrArray_iff absentOrObject_iff)

lemma mergePorts_total:
  assumes "isConfigDocument x"
  shows "\<exists>x'. mergePorts x ps = Inr x' \<and> isConfigDocument x'"
proof (cases "ps = []")
  case True
  with assms show ?thesis by (simp add: mergePorts_def)
next
  case False
  from assms obtain kvs where x: "x = JObj kvs" by (auto simp: isConfigDocument_iff)
  from assms x have "map_of kvs ''forwardPorts'' = None \<or> (\<exists>xs. map_of kvs ''forwardPorts'' = Some (JArr xs))"
    by (simp add: isConfigDocument_iff absentOrArray_iff)
  then obtain ys where "mergePorts x ps = Inr (JObj (AList.update ''forwardPorts'' (JArr ys) kvs))"
    using False x by (auto simp: mergePorts_def orElse_def)
  moreover have "isConfigDocument (JObj (AList.update ''forwardPorts'' (JArr ys) kvs))"
    using assms x by (intro isConfigDocument_update) simp_all
  ultimately show ?thesis by simp
qed

lemma mergeExtensions_total:
  assumes "isConfigDocument x"
  shows "\<exists>x'. mergeExtensions x es = Inr x' \<and> isConfigDocument x'"
proof (cases "es = []")
  case True
  with assms show ?thesis by (simp add: mergeExtensions_def)
next
  case False
  from assms obtain kvs where x: "x = JObj kvs" by (auto simp: isConfigDocument_iff)
  from assms x have c: "map_of kvs ''customizations'' = None \<or>
     (\<exists>c. map_of kvs ''customizations'' = Some (JObj c) \<and>
        (map_of c ''vscode'' = None \<or>
         (\<exists>v. map_of c ''vscode'' = Some (JObj v) \<and>
            (map_of v ''extensions'' = None \<or> (\<exists>xs. map_of v ''extensions'' = Some (JArr xs))))))"
    by (simp add: isConfigDocument_iff absentOrArray_iff absentOrObject_iff)
  from c consider
      (none) "map_of kvs ''customizations'' = None"
    | (cust) c where "map_of kvs ''customizations'' = Some (JObj c)" "map_of c ''vscode'' = None"
    | (vscode) c v where "map_of kvs ''customizations'' = Some (JObj c)"
        "map_of c ''vscode'' = Some (JObj v)" "map_of v ''extensions'' = None"
    | (exts) c v xs where "map_of kvs ''customizations'' = Some (JObj c)"
        "map_of c ''vscode'' = Some (JObj v)" "map_of v ''extensions'' = Some (JArr xs)"
    by (elim disjE exE conjE) simp_all
  then have "\<exists>c v ys. mergeExtensions x es = Inr (JObj (AList.update ''customizations''
      (JObj (AList.update ''vscode'' (JObj (AList.update ''extensions'' (JArr ys) v)) c)) kvs))"
  proof cases
    case none
    with False x have "mergeExtensions x es = Inr (JObj (AList.update ''customizations''
      (JObj (AList.update ''vscode'' (JObj (AList.update ''extensions''
         (JArr (newSet sameValueZero (map JStr es))) [])) [])) kvs))"
      by (simp add: mergeExtensions_def ensure_def orElse_def update_conv')
    then show ?thesis by blast
  next
    case (cust c)
    with False x have "mergeExtensions x es = Inr (JObj (AList.update ''customizations''
      (JObj (AList.update ''vscode'' (JObj (AList.update ''extensions''
         (JArr (newSet sameValueZero (map JStr es))) [])) c)) kvs))"
      by (simp add: mergeExtensions_def ensure_def orElse_def update_conv')
    then show ?thesis by blast
  next
    case (vscode c v)
    with False x have "mergeExtensions x es = Inr (JObj (AList.update ''customizations''
      (JObj (AList.update ''vscode'' (JObj (AList.update ''extensions''
         (JArr (newSet sameValueZero (map JStr es))) v)) c)) kvs))"
      by (simp add: mergeExtensions_def ensure_def orElse_def update_conv')
    then show ?thesis by blast
  next
    case (exts c v xs)
    with False x have "mergeExtensions x es = Inr (JObj (AList.update ''customizations''
      (JObj (AList.update ''vscode'' (JObj (AList.update ''extensions''
         (JArr (newSet sameValueZero (xs @ map JStr es))) v)) c)) kvs))"
      by (simp add: mergeExtensions_def ensure_def orElse_def update_conv')
    then show ?thesis by blast
  qed
  then obtain c v ys where r: "mergeExtensions x es = Inr (JObj (AList.update ''customizations''
      (JObj (AList.update ''vscode'' (JObj (AList.update ''extensions'' (JArr ys) v)) c)) kvs))"
    by blast
  have "isConfigDocument (JObj (AList.update ''customizations''
      (JObj (AList.update ''vscode'' (JObj (AList.update ''extensions'' (JArr ys) v)) c)) kvs))"
    using assms x
    by (intro isConfigDocument_update) (simp_all add: update_conv' absentOrObject_iff absentOrArray_iff)
  with r show ?thesis by simp
qed

lemma ensure_features_total:
  assumes "isConfigDocument x"
  shows "\<exists>x' fs. ensure x [''features''] (JObj []) = Inr x' \<and> isConfigDocument x'
     \<and> field x' ''features'' = Some (JObj fs)"
proof -
  from assms obtain kvs where x: "x = JObj kvs" by (auto simp: isConfigDocument_iff)
  from assms x have "map_of kvs ''features'' = None \<or> (\<exists>fs. map_of kvs ''features'' = Some (JObj fs))"
    by (simp add: isConfigDocument_iff absentOrObject_iff)
  then show ?thesis
  proof
    assume n: "map_of kvs ''features'' = None"
    have "isConfigDocument (JObj (AList.update ''features'' (JObj []) kvs))"
      using assms x by (intro isConfigDocument_update) simp_all
    with n x show ?thesis by (simp add: ensure_def update_conv')
  next
    assume "\<exists>fs. map_of kvs ''features'' = Some (JObj fs)"
    with assms x show ?thesis by (auto simp: ensure_def)
  qed
qed

lemma addFeature_total:
  assumes "isConfigDocument x" "field x ''features'' = Some (JObj fs)"
  shows "\<exists>x' fs'. addFeature x key = Inr x' \<and> isConfigDocument x'
     \<and> field x' ''features'' = Some (JObj fs')"
proof -
  from assms obtain kvs where x: "x = JObj kvs" by (auto simp: isConfigDocument_iff)
  have "isConfigDocument (JObj (AList.update ''features'' (JObj (AList.update key (JObj []) fs)) kvs))"
    using assms x by (intro isConfigDocument_update) simp_all
  with assms(2) x show ?thesis by (simp add: addFeature_def update_conv')
qed

lemma addDatabases_total:
  "isConfigDocument x \<Longrightarrow> field x ''features'' = Some (JObj fs) \<Longrightarrow>
   \<exists>x' fs'. addDatabases x dbs = Inr x' \<and> isConfigDocument x'
     \<and> field x' ''features'' = Some (JObj fs')"
proof (induction dbs arbitrary: x fs)
  case Nil
  then show ?case by simp
next
  case (Cons db dbs)
  show ?case
  proof (cases "databaseFeature db")
    case None
    with Cons.IH [OF Cons.prems] show ?thesis by simp
  next
    case (Some key)
    from addFeature_total [OF Cons.prems, of key] obtain y fs' where
      y: "addFeature x key = Inr y" "isConfigDocument y" "field y ''features'' = Some (JObj fs')"
      by blast
    from Cons.IH [OF y(2,3)] y(1) Some show ?thesis by simp
  qed
qed

lemma tool_step_total:
  assumes "isConfigDocument x" "field x ''features'' = Some (JObj fs)"
  shows "\<exists>x' fs'. (if c then addFeature x key else Inr x) = Inr x' \<and> isConfigDocument x'
     \<and> field x' ''features'' = Some (JObj fs')"
  using assms addFeature_total [OF assms, of key] by (cases c) simp_all

lemma applyModifications_total:
  assumes "isConfigDocument x"
  shows "\<exists>x'. applyModifications x a = Inr x'"
proof -
  from mergePorts_total [OF assms] obtain m1 where
    m1: "mergePorts x (ports a) = Inr m1" "isConfigDocument m1" by blast
  from mergeExtensions_total [OF m1(2)] obtain m2 where
    m2: "mergeExtensions m1 (extensions a) = Inr m2" "isConfigDocument m2" by blast
  from ensure_features_total [OF m2(2)] obtain m3 f3 where
    m3: "ensure m2 [''features''] (JObj []) = Inr m3" "isConfigDocument m3"
      "field m3 ''features'' = Some (JObj f3)" by blast
  from addDatabases_total [OF m3(2,3)] obtain m4 f4 where
    m4: "addDatabases m3 (databases a) = Inr m4" "isConfigDocument m4"
      "field m4 ''features'' = Some (JObj f4)" by blast
  from tool_step_total [OF m4(2,3)] obtain m5 f5 where
    m5: "(if ''docker'' \<in> set (tools a) then addFeature m4 dockerFeature else Inr m4) = Inr m5"
      "isConfigDocument m5" "field m5 ''features'' = Some (JObj f5)" by blast
  from tool_step_total [OF m5(2,3)] obtain m6 f6 where
    m6: "(if ''git'' \<in> set (tools a) then addFeature m5 gitFeature else Inr m5) = Inr m6"
    by blast
  show ?thesis
    unfolding applyModifications_def jsonClone_def
    by (simp only: m1(1) m2(1) m3(1) m4(1) m5(1) m6 bindE_simps if_split) auto
qed

subsection \<open>generateConfig\<close>

lemma generateConfig_steps:
  assumes "generateConfig t a = Inr x'"
  obtains c1 c2 c3 c4 c5 where
    "mergePorts (JObj (config t)) (ports a) = Inr c1"
    "mergeExtensions c1 (extensions a) = Inr c2"
    "addDatabaseFeatures c2 (databases a) = Inr c3"
    "addToolFeature c3 (''docker'' \<in> set (tools a)) dockerFeature = Inr c4"
    "addToolFeature c4 (''git'' \<in> set (tools a)) gitFeature = Inr c5"
    "updateName c5 a = Inr x'"
  using assms unfolding generateConfig_def jsonClone_def bindE_Inr_iff by blast

lemma addDatabaseFeatures_featuresAdded:
  assumes "addDatabaseFeatures c dbs = Inr c'"
  shows "featuresAdded {k. \<exists>db\<in>set dbs. databaseFeature db = Some k} c c'"
proof (cases "dbs = []")
  case True
  with assms show ?thesis by (simp add: addDatabaseFeatures_def featuresAdded_refl)
next
  case False
  with assms obtain y where y: "ensure c [''features''] (JObj []) = Inr y" "addDatabases y dbs = Inr c'"
    by (auto simp: addDatabaseFeatures_def bindE_Inr_iff)
  from featuresAdded_trans [OF featuresAdded_same [OF ensure_features(1) [OF y(1)]]
      addDatabases_featuresAdded [OF y(2)]]
  show ?thesis by simp
qed

lemma addToolFeature_featuresAdded:
  assumes "addToolFeature c b key = Inr c'"
  shows "featuresAdded (if b then {key} else {}) c c'"
proof (cases b)
  case False
  with assms show ?thesis by (simp add: addToolFeature_def featuresAdded_refl)
next
  case True
  with assms obtain y where y: "ensure c [''features''] (JObj []) = Inr y" "addFeature y key = Inr c'"
    by (auto simp: addToolFeature_def bindE_Inr_iff)
  from featuresAdded_trans [OF featuresAdded_same [OF ensure_features(1) [OF y(1)]]
      addFeature_featuresAdded [OF y(2)]] True
  show ?thesis by simp
qed

lemma updateName_changedAt: "updateName c a = Inr c' \<Longrightarrow> changedAt ''name'' c c'"
  by (auto simp: updateName_def changedAt_refl setProp_changedAt split: if_splits)

lemma generateConfig_featuresAdded:
  assumes "generateConfig t a = Inr x'"
  shows "featuresAdded (requestedFeatures a) (JObj (config t)) x'"
proof -
  from assms obtain c1 c2 c3 c4 c5 where
    s1: "mergePorts (JObj (config t)) (ports a) = Inr c1" and
    s2: "mergeExtensions c1 (extensions a) = Inr c2" and
    s3: "addDatabaseFeatures c2 (databases a) = Inr c3" and
    s4: "addToolFeature c3 (''docker'' \<in> set (tools a)) dockerFeature = Inr c4" and
    s5: "addToolFeature c4 (''git'' \<in> set (tools a)) gitFeature = Inr c5" and
    s6: "updateName c5 a = Inr x'"
    by (rule generateConfig_steps)
  have a1: "featuresAdded {} (JObj (config t)) c1"
    using mergePorts_changedAt [OF s1] by (rule changedAt_featuresAdded) simp
  have a2: "featuresAdded {} c1 c2"
    using mergeExtensions_changedAt [OF s2] by (rule changedAt_featuresAdded) simp
  note a3 = addDatabaseFeatures_featuresAdded [OF s3]
  note a4 = addToolFeature_featuresAdded [OF s4]
  note a5 = addToolFeature_featuresAdded [OF s5]
  have a6: "featuresAdded {} c5 x'"
    using updateName_changedAt [OF s6] by (rule changedAt_featuresAdded) simp
  from featuresAdded_trans [OF featuresAdded_trans [OF featuresAdded_trans [OF
        featuresAdded_trans [OF featuresAdded_trans [OF a1 a2] a3] a4] a5] a6]
  show ?thesis
    by (simp add: requestedFeatures_def toolFeature_set Un_assoc)
qed

lemma addDatabaseFeatures_total:
  assumes "isConfigDocument x"
  shows "\<exists>x'. addDatabaseFeatures x dbs = Inr x' \<and> isConfigDocument x'"
proof (cases "dbs = []")
  case True
  with assms show ?thesis by (simp add: addDatabaseFeatures_def)
next
  case False
  from ensure_features_total [OF assms] obtain y fs where
    y: "ensure x [''features''] (JObj []) = Inr y" "isConfigDocument y"
       "field y ''features'' = Some (JObj fs)" by blast
  from addDatabases_total [OF y(2,3), of dbs] y(1) False show ?thesis
    by (auto simp: addDatabaseFeatures_def)
qed

lemma addToolFeature_total:
  assumes "isConfigDocument x"
  shows "\<exists>x'. addToolFeature x b key = Inr x' \<and> isConfigDocument x'"
proof (cases b)
  case False
  with assms show ?thesis by (simp add: addToolFeature_def)
next
  case True
  from ensure_features_total [OF assms] obtain y fs where
    y: "ensure x [''features''] (JObj []) = Inr y" "isConfigDocument y"
       "field y ''features'' = Some (JObj fs)" by blast
  from addFeature_total [OF y(2,3), of key] y(1) True show ?thesis
    by (auto simp: addToolFeature_def)
qed

lemma updateName_total:
  assumes "isConfigDocument x"
  shows "\<exists>x'. updateName x a = Inr x'"
  using assms by (auto simp: updateName_def isConfigDocument_iff)

lemma generateConfig_total:
  assumes "isConfigDocument (JObj (config t))"
  shows "\<exists>x'. generateConfig t a = Inr x'"
proof -
  from mergePorts_total [OF assms] obtain c1 where
    c1: "mergePorts (JObj (config t)) (ports a) = Inr c1" "isConfigDocument c1" by blast
  from mergeExtensions_total [OF c1(2)] obtain c2 where
    c2: "mergeExtensions c1 (extensions a) = Inr c2" "isConfigDocument c2" by blast
  from addDatabaseFeatures_total [OF c2(2)] obtain c3 where
    c3: "addDatabaseFeatures c2 (databases a) = Inr c3" "isConfigDocument c3" by blast
  from addToolFeature_total [OF c3(2)] obtain c4 where
    c4: "addToolFeature c3 (''docker'' \<in> set (tools a)) dockerFeature = Inr c4" "isConfigDocument c4"
    by blast
  from addToolFeature_total [OF c4(2)] obtain c5 where
    c5: "addToolFeature c4 (''git'' \<in> set (tools a)) gitFeature = Inr c5" "isConfigDocument c5"
    by blast
  from updateName_total [OF c5(2)] obtain x' where "updateName c5 a = Inr x'" by blast
  with c1 c2 c3 c4 c5 show ?thesis
    by (simp add: generateConfig_def jsonClone_def)
qed

lemma analyze_python:
  "analyzePrompt ''Add Python support'' =
     \<lparr>languages = [''python''], frameworks = [], tools = [], databases = [], os = ''ubuntu'',
      ports = [], extensions = [''ms-python.python'', ''ms-python.pylint''],
      originalPrompt = ''Add Python support''\<rparr>"
  by code_simp

lemma addDatabaseFeatures_present:
  assumes "addDatabaseFeatures c dbs = Inr c'" "field c ''features'' = None"
  shows "field c' ''features'' \<noteq> None \<longleftrightarrow> dbs \<noteq> []"
proof (cases "dbs = []")
  case True
  with assms show ?thesis by (simp add: addDatabaseFeatures_def)
next
  case False
  with assms obtain y where y: "ensure c [''features''] (JObj []) = Inr y" "addDatabases y dbs = Inr c'"
    by (auto simp: addDatabaseFeatures_def bindE_Inr_iff)
  from addDatabases_present [OF y(2) ensure_features(2) [OF y(1)]] False show ?thesis by simp
qed

lemma addToolFeature_present:
  assumes "addToolFeature c b key = Inr c'"
  shows "field c' ''features'' \<noteq> None \<longleftrightarrow> field c ''features'' \<noteq> None \<or> b"
proof (cases b)
  case False
  with assms show ?thesis by (simp add: addToolFeature_def)
next
  case True
  with assms obtain y where y: "ensure c [''features''] (JObj []) = Inr y" "addFeature y key = Inr c'"
    by (auto simp: addToolFeature_def bindE_Inr_iff)
  from addFeature_present [OF y(2)] True show ?thesis by simp
qed

lemma mergePorts_result:
  assumes "mergePorts x ps = Inr x'" "isConfigDocument x"
    and "field x ''forwardPorts'' = None \<and> old = []
         \<or> field x ''forwardPorts'' = Some (JArr (map JNum old))"
  shows "if ps = [] then field x' ''forwardPorts'' = field x ''forwardPorts''
     else \<exists>merged. field x' ''forwardPorts'' = Some (JArr (map JNum merged))
                     \<and> distinct merged \<and> set merged = set old \<union> set ps"
proof (cases "ps = []")
  case True
  with assms(1) show ?thesis by (simp add: mergePorts_empty)
next
  case False
  from assms(2) obtain kvs where x: "x = JObj kvs" by (auto simp: isConfigDocument_iff)
  from mergePorts_numbers [OF False, of kvs old] assms(1,3) x
  have "x' = JObj (AList.update ''forwardPorts'' (JArr (map JNum (newSet (=) (old @ ps)))) kvs)"
    by simp
  then have "field x' ''forwardPorts'' = Some (JArr (map JNum (newSet (=) (old @ ps))))"
    by (simp add: update_conv')
  moreover have "distinct (newSet (=) (old @ ps))" by (rule distinct_newSet)
  moreover have "set (newSet (=) (old @ ps)) = set old \<union> set ps" by (simp add: set_newSet)
  ultimately show ?thesis using False by auto
qed

lemma applyModifications_after_ports:
  assumes "applyModifications x a = Inr x'" "mergePorts x (ports a) = Inr m1"
  shows "field x' ''forwardPorts'' = field m1 ''forwardPorts''"
proof -
  from assms(1) obtain n1 m2 where
    n1: "mergePorts x (ports a) = Inr n1" and m2: "mergeExtensions n1 (extensions a) = Inr m2" and
    rest: "(databases a = [] \<and> tools a = [] \<and> x' = m2) \<or>
     ((databases a \<noteq> [] \<or> tools a \<noteq> []) \<and> (\<exists>m3 m4 m5.
        ensure m2 [''features''] (JObj []) = Inr m3 \<and>
        addDatabases m3 (databases a) = Inr m4 \<and>
        (if ''docker'' \<in> set (tools a) then addFeature m4 dockerFeature else Inr m4) = Inr m5 \<and>
        (if ''git'' \<in> set (tools a) then addFeature m5 gitFeature else Inr m5) = Inr x'))"
    by (rule applyModifications_steps)
  from n1 assms(2) have eq: "n1 = m1" by simp
  have a: "field m2 ''forwardPorts'' = field n1 ''forwardPorts''"
    using mergeExtensions_changedAt [OF m2] by (rule changedAt_field) simp
  have "changedAt ''features'' m2 x'"
    using rest
    by (auto simp: changedAt_refl split: if_splits
        dest!: ensure_changedAt addDatabases_changedAt addFeature_changedAt
        intro: changedAt_trans)
  then have "field x' ''forwardPorts'' = field m2 ''forwardPorts''"
    by (rule changedAt_field) simp
  with a eq show ?thesis by simp
qed

lemma addDatabaseFeatures_changedAt:
  "addDatabaseFeatures c dbs = Inr c' \<Longrightarrow> changedAt ''features'' c c'"
  by (auto simp: addDatabaseFeatures_def bindE_Inr_iff changedAt_refl split: if_splits
      dest!: ensure_changedAt addDatabases_changedAt intro: changedAt_trans)

lemma addToolFeature_changedAt:
  "addToolFeature c b key = Inr c' \<Longrightarrow> changedAt ''features'' c c'"
  by (auto simp: addToolFeature_def bindE_Inr_iff changedAt_refl split: if_splits
      dest!: ensure_changedAt addFeature_changedAt intro: changedAt_trans)

lemma generateConfig_after_ports:
  assumes "generateConfig t a = Inr x'" "mergePorts (JObj (config t)) (ports a) = Inr m1"
  shows "field x' ''forwardPorts'' = field m1 ''forwardPorts''"
proof -
  from assms(1) obtain c1 c2 c3 c4 c5 where
    s1: "mergePorts (JObj (config t)) (ports a) = Inr c1" and
    s2: "mergeExtensions c1 (extensions a) = Inr c2" and
    s3: "addDatabaseFeatures c2 (databases a) = Inr c3" and
    s4: "addToolFeature c3 (''docker'' \<in> set (tools a)) dockerFeature = Inr c4" and
    s5: "addToolFeature c4 (''git'' \<in> set (tools a)) gitFeature = Inr c5" and
    s6: "updateName c5 a = Inr x'"
    by (rule generateConfig_steps)
  from s1 assms(2) have eq: "c1 = m1" by simp
  have "field c2 ''forwardPorts'' = field c1 ''forwardPorts''"
    using mergeExtensions_changedAt [OF s2] by (rule changedAt_field) simp
  moreover have "field c3 ''forwardPorts'' = field c2 ''forwardPorts''"
    using addDatabaseFeatures_changedAt [OF s3] by (rule changedAt_field) simp
  moreover have "field c4 ''forwardPorts'' = field c3 ''forwardPorts''"
    using addToolFeature_changedAt [OF s4] by (rule changedAt_field) simp
  moreover have "field c5 ''forwardPorts'' = field c4 ''forwardPorts''"
    using addToolFeature_changedAt [OF s5] by (rule changedAt_field) simp
  moreover have "field x' ''forwardPorts'' = field c5 ''forwardPorts''"
    using updateName_changedAt [OF s6] by (rule changedAt_field) simp
  ultimately show ?thesis using eq by simp
qed

section \<open>Port extraction: proofs\<close>


declare rxMatchAll.simps [simp del]























































section \<open>The store: proofs\<close>

lemma hBind_Inr_iff:
  "hBind m f h = Inr r \<longleftrightarrow> (\<exists>x h'. m h = Inr (x, h') \<and> f x h' = Inr r)"
  by (auto simp: hBind_def split: sum.splits)

lemma hReturn_simp [simp]: "hReturn x h = Inr (x, h)"
  by (simp add: hReturn_def)

lemma hAlloc_simp [simp]: "hAlloc ob h = Inr (HRef (length h), h @ [ob])"
  by (simp add: hAlloc_def)

lemma rep_bounded:
  "rep h v j F \<Longrightarrow> F \<subseteq> {..<length h}"
  "reps h vs js F \<Longrightarrow> F \<subseteq> {..<length h}"
  "repf h kvs kjs F \<Longrightarrow> F \<subseteq> {..<length h}"
  by (induction rule: rep_reps_repf.inducts) auto

lemma rep_frame:
  "rep h v j F \<Longrightarrow> (\<forall>a\<in>F. a < length h' \<and> h' ! a = h ! a) \<Longrightarrow> rep h' v j F"
  "reps h vs js F \<Longrightarrow> (\<forall>a\<in>F. a < length h' \<and> h' ! a = h ! a) \<Longrightarrow> reps h' vs js F"
  "repf h kvs kjs F \<Longrightarrow> (\<forall>a\<in>F. a < length h' \<and> h' ! a = h ! a) \<Longrightarrow> repf h' kvs kjs F"
proof (induction rule: rep_reps_repf.inducts)
  case (rep_arr a vs js F)
  then show ?case by (auto intro!: rep_reps_repf.rep_arr)
next
  case (rep_obj a kvs kjs F)
  then show ?case by (auto intro!: rep_reps_repf.rep_obj)
next
  case (reps_cons v j F vs js G)
  then show ?case by (auto intro!: rep_reps_repf.reps_cons)
next
  case (repf_cons v j F kvs kjs G k)
  then show ?case by (auto intro!: rep_reps_repf.repf_cons)
qed (auto intro: rep_reps_repf.intros)

lemma rep_toJson:
  "rep h v j F \<Longrightarrow> set stk \<inter> F = {} \<Longrightarrow> toJson h stk v = Some j"
  "reps h vs js F \<Longrightarrow> set stk \<inter> F = {} \<Longrightarrow> toJsonList h stk vs = Some js"
  "repf h kvs kjs F \<Longrightarrow> set stk \<inter> F = {} \<Longrightarrow> toJsonFields h stk kvs = Some kjs"
proof (induction arbitrary: stk and stk and stk rule: rep_reps_repf.inducts)
  case (rep_arr a vs js F)
  have "set (a # stk) \<inter> F = {}" using rep_arr by auto
  then have "toJsonList h (a # stk) vs = Some js" using rep_arr by blast
  then show ?case using rep_arr by auto
next
  case (rep_obj a kvs kjs F)
  have "set (a # stk) \<inter> F = {}" using rep_obj by auto
  then have "toJsonFields h (a # stk) kvs = Some kjs" using rep_obj by blast
  then show ?case using rep_obj by auto
next
  case (reps_cons v j F vs js G)
  then show ?case by (auto simp: Int_Un_distrib)
next
  case (repf_cons v j F kvs kjs G k)
  then show ?case by (auto simp: Int_Un_distrib)
qed simp_all

lemma extends_refl: "extends h h" by (simp add: extends_def)

lemma extends_nth: "extends h h' \<Longrightarrow> a < length h \<Longrightarrow> h' ! a = h ! a"
  by (auto simp: extends_def nth_append)

lemma extends_length: "extends h h' \<Longrightarrow> length h \<le> length h'"
  by (auto simp: extends_def)

lemma extends_trans: "extends h h' \<Longrightarrow> extends h' h'' \<Longrightarrow> extends h h''"
  by (auto simp: extends_def)

lemma extends_append: "extends h (h @ xs)" by (simp add: extends_def)

lemma rep_extends:
  assumes "extends h h'"
  shows "rep h v j F \<Longrightarrow> rep h' v j F" "reps h vs js F \<Longrightarrow> reps h' vs js F"
    "repf h kvs kjs F \<Longrightarrow> repf h' kvs kjs F"
proof -
  have a: "\<forall>a\<in>F. a < length h' \<and> h' ! a = h ! a" if "F \<subseteq> {..<length h}" for F
  proof
    fix a assume "a \<in> F"
    with that have "a < length h" by auto
    with assms extends_length [OF assms] show "a < length h' \<and> h' ! a = h ! a"
      by (simp add: extends_nth)
  qed
  show "rep h' v j F" if r: "rep h v j F"
    using rep_frame(1) [OF r a [OF rep_bounded(1) [OF r]]] .
  show "reps h' vs js F" if r: "reps h vs js F"
    using rep_frame(2) [OF r a [OF rep_bounded(2) [OF r]]] .
  show "repf h' kvs kjs F" if r: "repf h kvs kjs F"
    using rep_frame(3) [OF r a [OF rep_bounded(3) [OF r]]] .
qed

lemma disjoint_ranges: "F \<subseteq> {a..<b::nat} \<Longrightarrow> G \<subseteq> {b..<c} \<Longrightarrow> F \<inter> G = {}"
  by fastforce

lemma fromJson_rep:
  "fromJson j h = (v, h') \<Longrightarrow>
     extends h h' \<and> (\<exists>F. rep h' v j F \<and> F \<subseteq> {length h..<length h'})"
  "fromJsonList js h = (vs, h') \<Longrightarrow>
     extends h h' \<and> (\<exists>F. reps h' vs js F \<and> F \<subseteq> {length h..<length h'})"
  "fromJsonFields kjs h = (kvs, h') \<Longrightarrow>
     extends h h' \<and> (\<exists>F. repf h' kvs kjs F \<and> F \<subseteq> {length h..<length h'})"
proof (induction j h and js h and kjs h arbitrary: v h' and vs h' and kvs h'
    rule: fromJson_fromJsonList_fromJsonFields.induct)
  case (5 js h)
  obtain vs h1 where l: "fromJsonList js h = (vs, h1)" by (cases "fromJsonList js h")
  from "5.IH" [OF l] obtain F where F: "extends h h1" "reps h1 vs js F" "F \<subseteq> {length h..<length h1}"
    by blast
  from "5.prems" l have v: "v = HRef (length h1)" "h' = h1 @ [HArr vs]" by simp_all
  have e: "extends h1 h'" using v by (simp add: extends_append)
  have "reps h' vs js F" using rep_extends(2) [OF e F(2)] .
  moreover have "length h1 \<notin> F" using rep_bounded(2) [OF F(2)] by auto
  ultimately have "rep h' v (JArr js) (insert (length h1) F)"
    unfolding v by (intro rep_reps_repf.rep_arr) simp_all
  moreover have "insert (length h1) F \<subseteq> {length h..<length h'}"
    using F(3) v extends_length [OF F(1)] by auto
  ultimately show ?case using extends_trans [OF F(1) e] by blast
next
  case (6 kjs h)
  obtain kvs h1 where l: "fromJsonFields kjs h = (kvs, h1)" by (cases "fromJsonFields kjs h")
  from "6.IH" [OF l] obtain F where F: "extends h h1" "repf h1 kvs kjs F" "F \<subseteq> {length h..<length h1}"
    by blast
  from "6.prems" l have v: "v = HRef (length h1)" "h' = h1 @ [HObj kvs]" by simp_all
  have e: "extends h1 h'" using v by (simp add: extends_append)
  have "repf h' kvs kjs F" using rep_extends(3) [OF e F(2)] .
  moreover have "length h1 \<notin> F" using rep_bounded(3) [OF F(2)] by auto
  ultimately have "rep h' v (JObj kjs) (insert (length h1) F)"
    unfolding v by (intro rep_reps_repf.rep_obj) simp_all
  moreover have "insert (length h1) F \<subseteq> {length h..<length h'}"
    using F(3) v extends_length [OF F(1)] by auto
  ultimately show ?case using extends_trans [OF F(1) e] by blast
next
  case (8 j js h)
  obtain v1 h1 where a: "fromJson j h = (v1, h1)" by (cases "fromJson j h")
  obtain vs1 h2 where b: "fromJsonList js h1 = (vs1, h2)" by (cases "fromJsonList js h1")
  from "8.IH"(1) [OF a] obtain F where F: "extends h h1" "rep h1 v1 j F" "F \<subseteq> {length h..<length h1}"
    by blast
  from "8.IH"(2) [OF a [symmetric] b] obtain G where
    G: "extends h1 h2" "reps h2 vs1 js G" "G \<subseteq> {length h1..<length h2}" by blast
  from "8.prems" a b have r: "vs = v1 # vs1" "h' = h2" by simp_all
  have "rep h2 v1 j F" using rep_extends(1) [OF G(1) F(2)] .
  moreover have "F \<inter> G = {}" using F(3) G(3) by (rule disjoint_ranges)
  ultimately have "reps h2 (v1 # vs1) (j # js) (F \<union> G)" using G(2) by (intro rep_reps_repf.reps_cons)
  moreover have "F \<union> G \<subseteq> {length h..<length h2}"
    using F(3) G(3) extends_length [OF F(1)] extends_length [OF G(1)] by auto
  ultimately show ?case using r extends_trans [OF F(1) G(1)] by blast
next
  case (10 k j kjs h)
  obtain v1 h1 where a: "fromJson j h = (v1, h1)" by (cases "fromJson j h")
  obtain kvs1 h2 where b: "fromJsonFields kjs h1 = (kvs1, h2)" by (cases "fromJsonFields kjs h1")
  from "10.IH"(1) [OF a] obtain F where F: "extends h h1" "rep h1 v1 j F" "F \<subseteq> {length h..<length h1}"
    by blast
  from "10.IH"(2) [OF a [symmetric] b] obtain G where
    G: "extends h1 h2" "repf h2 kvs1 kjs G" "G \<subseteq> {length h1..<length h2}" by blast
  from "10.prems" a b have r: "kvs = (k, v1) # kvs1" "h' = h2" by simp_all
  have "rep h2 v1 j F" using rep_extends(1) [OF G(1) F(2)] .
  moreover have "F \<inter> G = {}" using F(3) G(3) by (rule disjoint_ranges)
  ultimately have "repf h2 ((k, v1) # kvs1) ((k, j) # kjs) (F \<union> G)" using G(2) by (intro rep_reps_repf.repf_cons)
  moreover have "F \<union> G \<subseteq> {length h..<length h2}"
    using F(3) G(3) extends_length [OF F(1)] extends_length [OF G(1)] by auto
  ultimately show ?case using r extends_trans [OF F(1) G(1)] by blast
qed (auto simp: extends_refl intro: rep_reps_repf.intros)

inductive_simps repf_Nil_iff: "repf h [] kjs G"

inductive_simps repf_Cons_iff: "repf h (kv # kvs) kjs G"

inductive_simps reps_Nil_iff: "reps h [] js G"

inductive_simps reps_Cons_iff: "reps h (v # vs) js G"

inductive_cases rep_JObjE: "rep h x (JObj kjs) F"

inductive_cases rep_JArrE: "rep h x (JArr js) F"




inductive_cases rep_JStrE: "rep h x (JStr s) F"

lemma repf_keys: "repf h kvs kjs G \<Longrightarrow> map fst kvs = map fst kjs"
  by (induction kvs arbitrary: kjs G) (auto simp: repf_Nil_iff repf_Cons_iff)

lemma map_of_None_keys: "map fst xs = map fst ys \<Longrightarrow> map_of xs k = None \<longleftrightarrow> map_of ys k = None"
  by (metis map_of_eq_None_iff set_map)

lemma repf_None: "repf h kvs kjs G \<Longrightarrow> map_of kvs k = None \<longleftrightarrow> map_of kjs k = None"
  by (rule map_of_None_keys) (rule repf_keys)

text \<open>The child at a key, and how the object is rebuilt around a changed child.\<close>

lemma repf_lookup:
  "repf h kvs kjs G \<Longrightarrow> map_of kjs k = Some y \<Longrightarrow>
   \<exists>vy Fy. map_of kvs k = Some vy \<and> rep h vy y Fy \<and> Fy \<subseteq> G \<and>
     (\<forall>h' y' Fy'. (\<forall>a\<in>G - Fy. a < length h' \<and> h' ! a = h ! a) \<longrightarrow>
         rep h' vy y' Fy' \<longrightarrow> Fy' \<inter> (G - Fy) = {} \<longrightarrow>
         (\<exists>G'. repf h' kvs (AList.update k y' kjs) G' \<and> G' \<subseteq> (G - Fy) \<union> Fy'))"
proof (induction kvs arbitrary: kjs G)
  case Nil
  then show ?case by (simp add: repf_Nil_iff)
next
  case (Cons kv kvs)
  from Cons.prems(1) obtain k0 v0 j0 kjs1 F0 G1 where
    s: "kv = (k0, v0)" "kjs = (k0, j0) # kjs1" "rep h v0 j0 F0" "repf h kvs kjs1 G1"
       "F0 \<inter> G1 = {}" "G = F0 \<union> G1"
    by (auto simp: repf_Cons_iff)
  show ?case
  proof (cases "k0 = k")
    case True
    with Cons.prems(2) s have y: "y = j0" by simp
    have "\<exists>G'. repf h' ((k0, v0) # kvs) (AList.update k y' kjs) G' \<and> G' \<subseteq> (G - F0) \<union> Fy'"
      if agree: "\<forall>a\<in>G - F0. a < length h' \<and> h' ! a = h ! a"
        and r: "rep h' v0 y' Fy'" and d: "Fy' \<inter> (G - F0) = {}" for h' y' Fy'
    proof -
      from s(5,6) have g1: "G1 \<subseteq> G - F0" by auto
      with agree have "\<forall>a\<in>G1. a < length h' \<and> h' ! a = h ! a" by blast
      from rep_frame(3) [OF s(4) this] have t: "repf h' kvs kjs1 G1" .
      from d g1 have "Fy' \<inter> G1 = {}" by blast
      from repf_cons [OF r t this] have "repf h' ((k0, v0) # kvs) ((k0, y') # kjs1) (Fy' \<union> G1)" .
      moreover have "AList.update k y' kjs = (k0, y') # kjs1" using True s(2) by simp
      moreover have "Fy' \<union> G1 \<subseteq> (G - F0) \<union> Fy'" using g1 by auto
      ultimately show ?thesis by auto
    qed
    with True s y show ?thesis by (intro exI [of _ v0] exI [of _ F0]) auto
  next
    case False
    with Cons.prems(2) s have "map_of kjs1 k = Some y" by simp
    from Cons.IH [OF s(4) this] obtain vy Fy where
      c: "map_of kvs k = Some vy" "rep h vy y Fy" "Fy \<subseteq> G1" and
      rebuild: "\<And>h' y' Fy'. (\<forall>a\<in>G1 - Fy. a < length h' \<and> h' ! a = h ! a) \<Longrightarrow>
         rep h' vy y' Fy' \<Longrightarrow> Fy' \<inter> (G1 - Fy) = {} \<Longrightarrow>
         (\<exists>G'. repf h' kvs (AList.update k y' kjs1) G' \<and> G' \<subseteq> (G1 - Fy) \<union> Fy')"
      by blast
    have "\<exists>G'. repf h' ((k0, v0) # kvs) (AList.update k y' kjs) G' \<and> G' \<subseteq> (G - Fy) \<union> Fy'"
      if agree: "\<forall>a\<in>G - Fy. a < length h' \<and> h' ! a = h ! a"
        and r: "rep h' vy y' Fy'" and d: "Fy' \<inter> (G - Fy) = {}" for h' y' Fy'
    proof -
      from s(5,6) c(3) have f0: "F0 \<subseteq> G - Fy" by auto
      with agree have "\<forall>a\<in>F0. a < length h' \<and> h' ! a = h ! a" by blast
      from rep_frame(1) [OF s(3) this] have t0: "rep h' v0 j0 F0" .
      from s(6) have g1: "G1 - Fy \<subseteq> G - Fy" by auto
      with agree have a1: "\<forall>a\<in>G1 - Fy. a < length h' \<and> h' ! a = h ! a" by blast
      from d g1 have d1: "Fy' \<inter> (G1 - Fy) = {}" by blast
      from rebuild [OF a1 r d1] obtain G' where
        G': "repf h' kvs (AList.update k y' kjs1) G'" "G' \<subseteq> (G1 - Fy) \<union> Fy'" by blast
      from G'(2) s(5) d f0 have "F0 \<inter> G' = {}" by blast
      from repf_cons [OF t0 G'(1) this]
      have "repf h' ((k0, v0) # kvs) ((k0, j0) # AList.update k y' kjs1) (F0 \<union> G')" .
      moreover have "AList.update k y' kjs = (k0, j0) # AList.update k y' kjs1"
        using False s(2) by simp
      moreover have "F0 \<union> G' \<subseteq> (G - Fy) \<union> Fy'" using f0 G'(2) g1 by auto
      ultimately show ?thesis by auto
    qed
    with False s c show ?thesis by (intro exI [of _ vy] exI [of _ Fy]) auto
  qed
qed

lemma repf_lookup_store:
  assumes "repf h kvs kjs G" "map_of kvs k = Some vy"
  shows "\<exists>y Fy. map_of kjs k = Some y \<and> rep h vy y Fy \<and> Fy \<subseteq> G"
proof -
  from repf_None [OF assms(1), of k] assms(2) obtain y where y: "map_of kjs k = Some y"
    by (cases "map_of kjs k") auto
  from repf_lookup [OF assms(1) y] assms(2) y show ?thesis by auto
qed

text \<open>Storing a value under a key; the value may reuse objects of the value it replaces.\<close>

lemma repf_replace:
  "repf h kvs kjs G \<Longrightarrow> rep h v j Fv \<Longrightarrow>
   (map_of kvs k = None \<longrightarrow> Fv \<inter> G = {}) \<Longrightarrow>
   (\<forall>vy y Fy. map_of kvs k = Some vy \<longrightarrow> rep h vy y Fy \<longrightarrow> Fv \<inter> (G - Fy) = {}) \<Longrightarrow>
   \<exists>G'. repf h (AList.update k v kvs) (AList.update k j kjs) G' \<and> G' \<subseteq> G \<union> Fv"
proof (induction kvs arbitrary: kjs G)
  case Nil
  then have "kjs = []" "G = {}" by (simp_all add: repf_Nil_iff)
  moreover from repf_cons [OF Nil.prems(2) repf_nil, of k] have "repf h [(k, v)] [(k, j)] Fv"
    by simp
  ultimately show ?case by auto
next
  case (Cons kv kvs)
  from Cons.prems(1) obtain k0 v0 j0 kjs1 F0 G1 where
    s: "kv = (k0, v0)" "kjs = (k0, j0) # kjs1" "rep h v0 j0 F0" "repf h kvs kjs1 G1"
       "F0 \<inter> G1 = {}" "G = F0 \<union> G1"
    by (auto simp: repf_Cons_iff)
  show ?case
  proof (cases "k0 = k")
    case True
    with Cons.prems(4) s(1,3) have "Fv \<inter> (G - F0) = {}" by simp
    with s(5,6) have "Fv \<inter> G1 = {}" by auto
    from repf_cons [OF Cons.prems(2) s(4) this, of k] True s show ?thesis by auto
  next
    case False
    have d: "Fv \<inter> G1 = {} \<or> (\<exists>vy y Fy. map_of kvs k = Some vy \<and> rep h vy y Fy \<and> Fy \<subseteq> G1)"
      and d0: "Fv \<inter> F0 = {}"
    proof -
      show "Fv \<inter> G1 = {} \<or> (\<exists>vy y Fy. map_of kvs k = Some vy \<and> rep h vy y Fy \<and> Fy \<subseteq> G1)"
      proof (cases "map_of kvs k")
        case None
        with Cons.prems(3) False s(1,6) show ?thesis by auto
      next
        case (Some vy)
        with repf_lookup_store [OF s(4) Some] show ?thesis by blast
      qed
      show "Fv \<inter> F0 = {}"
      proof (cases "map_of kvs k")
        case None
        with Cons.prems(3) False s(1,6) show ?thesis by auto
      next
        case (Some vy)
        from repf_lookup_store [OF s(4) Some] obtain y Fy where
          y: "rep h vy y Fy" "Fy \<subseteq> G1" by blast
        from Cons.prems(4) False s(1) Some y(1) have "Fv \<inter> (G - Fy) = {}" by simp
        with y(2) s(5,6) show ?thesis by auto
      qed
    qed
    have p3: "map_of kvs k = None \<longrightarrow> Fv \<inter> G1 = {}"
      using Cons.prems(3) False s(1,6) by auto
    have p4: "\<forall>vy y Fy. map_of kvs k = Some vy \<longrightarrow> rep h vy y Fy \<longrightarrow> Fv \<inter> (G1 - Fy) = {}"
    proof (intro allI impI)
      fix vy y Fy assume a: "map_of kvs k = Some vy" "rep h vy y Fy"
      with Cons.prems(4) False s(1) have "Fv \<inter> (G - Fy) = {}" by simp
      with s(6) show "Fv \<inter> (G1 - Fy) = {}" by auto
    qed
    from Cons.IH [OF s(4) Cons.prems(2) p3 p4] obtain G' where
      G': "repf h (AList.update k v kvs) (AList.update k j kjs1) G'" "G' \<subseteq> G1 \<union> Fv" by blast
    from G'(2) s(5) d0 have "F0 \<inter> G' = {}" by blast
    from repf_cons [OF s(3) G'(1) this, of k0] False s G'(2) show ?thesis by auto
  qed
qed

lemma repo_truthy: "repo h vo jo F \<Longrightarrow> hTruthy vo = truthy jo"
  by (cases jo rule: truthy.cases) (auto simp: repo_def elim: rep.cases)

lemma getProp_sim:
  assumes r: "rep h x J F" and g: "getProp J k = Inr jo"
  shows "\<exists>vo. hGetProp x k h = Inr (vo, h) \<and> repo h vo jo F"
proof (cases J)
  case (JObj kjs)
  from r JObj obtain a kvs G where
    o: "x = HRef a" "a < length h" "h ! a = HObj kvs" "repf h kvs kjs G" "a \<notin> G" "F = insert a G"
    by (auto elim: rep_JObjE)
  from g JObj have jo: "jo = map_of kjs k" by simp
  show ?thesis
  proof (cases "map_of kjs k")
    case None
    with repf_None [OF o(4), of k] o jo show ?thesis by (simp add: repo_def)
  next
    case (Some y)
    from repf_lookup [OF o(4) Some] obtain vy Fy where
      "map_of kvs k = Some vy" "rep h vy y Fy" "Fy \<subseteq> G" by blast
    with o jo Some show ?thesis by (auto simp: repo_def)
  qed
next
  case (JArr js)
  with r g show ?thesis by (auto simp: repo_def elim!: rep_JArrE)
qed (use r g in \<open>auto simp: repo_def elim: rep.cases\<close>)

lemma getPath_sim:
  "rep h x J F \<Longrightarrow> getPath J p = Inr jo \<Longrightarrow>
     \<exists>vo. hGetPath x p h = Inr (vo, h) \<and> repo h vo jo F"
proof (induction J p arbitrary: x F rule: getPath.induct)
  case (1 J)
  then show ?case by (auto simp: repo_def)
next
  case (2 J k)
  then show ?case using getProp_sim by simp
next
  case (3 J k k2 ks)
  from "3.prems"(2) obtain y where y: "getProp J k = Inr (Some y)" "getPath y (k2 # ks) = Inr jo"
    by (auto simp: bindE_Inr_iff split: option.splits)
  from getProp_sim [OF "3.prems"(1) y(1)] obtain vy Fy where
    vy: "hGetProp x k h = Inr (Some vy, h)" "rep h vy y Fy" "Fy \<subseteq> F"
    by (auto simp: repo_def)
  from "3.IH" [OF vy(2) y(2)] obtain vo where
    vo: "hGetPath vy (k2 # ks) h = Inr (vo, h)" "repo h vo jo Fy" by blast
  from vo(2) vy(3) have "repo h vo jo F" by (auto simp: repo_def split: option.splits)
  with vo(1) vy(1) show ?case by (simp add: hBind_def)
qed

lemma setPath_getPath:
  "setPath J p v = Inr J' \<Longrightarrow> p \<noteq> [] \<Longrightarrow> \<exists>jo. getPath J p = Inr jo"
proof (induction J p v arbitrary: J' rule: setPath.induct)
  case (2 J k v)
  then show ?case by (auto dest: setProp_Inr)
next
  case (3 J k k2 ks v)
  from "3.prems"(1) obtain y y' where
    y: "getProp J k = Inr (Some y)" "setPath y (k2 # ks) v = Inr y'"
    by (auto simp: bindE_Inr_iff split: option.splits)
  from "3.IH" [OF y(2)] y(1) show ?case by auto
qed simp

text \<open>
  Writing a property: the store changes only inside the tree. The value written may
  reuse objects of the value that it replaces, and no other object of the tree.
\<close>

lemma setPath_sim:
  "rep h x J F \<Longrightarrow> rep h v jv Fv \<Longrightarrow> setPath J p jv = Inr J' \<Longrightarrow> p \<noteq> [] \<Longrightarrow>
   (hGetPath x p h = Inr (None, h) \<longrightarrow> Fv \<inter> F = {}) \<Longrightarrow>
   (\<forall>vo jo Fo. hGetPath x p h = Inr (Some vo, h) \<longrightarrow> rep h vo jo Fo \<longrightarrow> Fv \<inter> (F - Fo) = {}) \<Longrightarrow>
   \<exists>h' F'. hSetPath x p v h = Inr ((), h') \<and> rep h' x J' F' \<and> F' \<subseteq> F \<union> Fv
      \<and> length h' = length h \<and> (\<forall>a. a \<notin> F \<longrightarrow> h' ! a = h ! a)"
proof (induction J p jv arbitrary: x F J' rule: setPath.induct)
  case (1 J v)
  then show ?case by simp
next
  case (2 J k jv)
  from "2.prems"(3) obtain kjs where J: "J = JObj kjs" "J' = JObj (AList.update k jv kjs)"
    by (auto dest: setProp_Inr)
  from "2.prems"(1) J obtain a kvs G where
    o: "x = HRef a" "a < length h" "h ! a = HObj kvs" "repf h kvs kjs G" "a \<notin> G" "F = insert a G"
    by (auto elim: rep_JObjE)
  let ?h' = "h[a := HObj (AList.update k v kvs)]"
  have g: "hGetPath x [k] h = Inr (map_of kvs k, h)" using o by simp
  have p3: "map_of kvs k = None \<longrightarrow> Fv \<inter> G = {}"
    using "2.prems"(5) g o(6) by auto
  have p4: "\<forall>vy y Fy. map_of kvs k = Some vy \<longrightarrow> rep h vy y Fy \<longrightarrow> Fv \<inter> (G - Fy) = {}"
  proof (intro allI impI)
    fix vy y Fy assume a: "map_of kvs k = Some vy" "rep h vy y Fy"
    with "2.prems"(6) g have "Fv \<inter> (F - Fy) = {}" by simp
    with o(6) show "Fv \<inter> (G - Fy) = {}" by auto
  qed
  have aFv: "a \<notin> Fv"
  proof (cases "map_of kvs k")
    case None
    with "2.prems"(5) g o(6) show ?thesis by auto
  next
    case (Some vy)
    from repf_lookup_store [OF o(4) Some] obtain y Fy where y: "rep h vy y Fy" "Fy \<subseteq> G" by blast
    from "2.prems"(6) g Some y(1) have "Fv \<inter> (F - Fy) = {}" by simp
    with y(2) o(5,6) show ?thesis by auto
  qed
  from repf_replace [OF o(4) "2.prems"(2) p3 p4] obtain G' where
    G': "repf h (AList.update k v kvs) (AList.update k jv kjs) G'" "G' \<subseteq> G \<union> Fv" by blast
  from G'(2) o(5) aFv have aG': "a \<notin> G'" by auto
  have "\<forall>b\<in>G'. b < length ?h' \<and> ?h' ! b = h ! b"
  proof
    fix b assume b: "b \<in> G'"
    with aG' have "b \<noteq> a" by auto
    moreover from b rep_bounded(3) [OF G'(1)] have "b < length h" by auto
    ultimately show "b < length ?h' \<and> ?h' ! b = h ! b" by simp
  qed
  from rep_frame(3) [OF G'(1) this]
  have "repf ?h' (AList.update k v kvs) (AList.update k jv kjs) G'" .
  then have "rep ?h' (HRef a) (JObj (AList.update k jv kjs)) (insert a G')"
    using o(2) aG' by (intro rep_obj) simp_all
  moreover have "insert a G' \<subseteq> F \<union> Fv" using G'(2) o(6) by auto
  moreover have "\<forall>b. b \<notin> F \<longrightarrow> ?h' ! b = h ! b" using o(6) by auto
  ultimately show ?case using o J by auto
next
  case (3 J k k2 ks jv)
  from "3.prems"(3) obtain y y' where
    y: "getProp J k = Inr (Some y)" "setPath y (k2 # ks) jv = Inr y'" "setProp J k y' = Inr J'"
    by (auto simp: bindE_Inr_iff split: option.splits)
  from y(3) obtain kjs where J: "J = JObj kjs" "J' = JObj (AList.update k y' kjs)"
    by (auto dest: setProp_Inr)
  from "3.prems"(1) J obtain a kvs G where
    o: "x = HRef a" "a < length h" "h ! a = HObj kvs" "repf h kvs kjs G" "a \<notin> G" "F = insert a G"
    by (auto elim: rep_JObjE)
  from y(1) J have "map_of kjs k = Some y" by simp
  from repf_lookup [OF o(4) this] obtain vy Fy where
    c: "map_of kvs k = Some vy" "rep h vy y Fy" "Fy \<subseteq> G" and
    rebuild: "\<And>h' y' Fy'. (\<forall>a\<in>G - Fy. a < length h' \<and> h' ! a = h ! a) \<Longrightarrow>
         rep h' vy y' Fy' \<Longrightarrow> Fy' \<inter> (G - Fy) = {} \<Longrightarrow>
         (\<exists>G'. repf h' kvs (AList.update k y' kjs) G' \<and> G' \<subseteq> (G - Fy) \<union> Fy')"
    by blast
  have g: "hGetPath x (k # k2 # ks) h = hGetPath vy (k2 # ks) h"
    using o c(1) by (simp add: hBind_def)
  from setPath_getPath [OF y(2)] obtain jo where "getPath y (k2 # ks) = Inr jo" by auto
  from getPath_sim [OF c(2) this] obtain vo where
    vo: "hGetPath vy (k2 # ks) h = Inr (vo, h)" "repo h vo jo Fy" by blast
  have out: "Fv \<inter> (insert a G - Fy) = {}"
  proof (cases jo)
    case None
    with vo have "hGetPath vy (k2 # ks) h = Inr (None, h)" by (simp add: repo_def)
    with "3.prems"(5) g o(6) show ?thesis by auto
  next
    case (Some j)
    with vo obtain w Fo where w: "hGetPath vy (k2 # ks) h = Inr (Some w, h)" "rep h w j Fo" "Fo \<subseteq> Fy"
      by (auto simp: repo_def)
    with "3.prems"(6) g have "Fv \<inter> (F - Fo) = {}" by simp
    with w(3) o(6) show ?thesis by auto
  qed
  have p5: "hGetPath vy (k2 # ks) h = Inr (None, h) \<longrightarrow> Fv \<inter> Fy = {}"
    using "3.prems"(5) g o(6) c(3) by auto
  have p6: "\<forall>vo jo Fo. hGetPath vy (k2 # ks) h = Inr (Some vo, h) \<longrightarrow> rep h vo jo Fo \<longrightarrow>
      Fv \<inter> (Fy - Fo) = {}"
  proof (intro allI impI)
    fix w j Fo assume a: "hGetPath vy (k2 # ks) h = Inr (Some w, h)" "rep h w j Fo"
    with "3.prems"(6) g have "Fv \<inter> (F - Fo) = {}" by simp
    with c(3) o(6) show "Fv \<inter> (Fy - Fo) = {}" by auto
  qed
  from "3.IH" [OF c(2) "3.prems"(2) y(2) _ p5 p6] obtain h' Fy' where
    h': "hSetPath vy (k2 # ks) v h = Inr ((), h')" "rep h' vy y' Fy'" "Fy' \<subseteq> Fy \<union> Fv"
      "length h' = length h" "\<forall>b. b \<notin> Fy \<longrightarrow> h' ! b = h ! b"
    by auto
  have agree: "\<forall>b\<in>G - Fy. b < length h' \<and> h' ! b = h ! b"
    using h'(4,5) rep_bounded(3) [OF o(4)] by auto
  from h'(3) out have "Fy' \<inter> (G - Fy) = {}" by auto
  from rebuild [OF agree h'(2) this] obtain G' where
    G': "repf h' kvs (AList.update k y' kjs) G'" "G' \<subseteq> (G - Fy) \<union> Fy'" by blast
  from c(3) o(5) have aFy: "a \<notin> Fy" by auto
  with h'(5) o(3) have "h' ! a = HObj kvs" by simp
  moreover from G'(2) h'(3) aFy o(5) out have "a \<notin> G'" by auto
  ultimately have "rep h' (HRef a) (JObj (AList.update k y' kjs)) (insert a G')"
    using G'(1) o(2) h'(4) by (intro rep_obj) simp_all
  moreover have "insert a G' \<subseteq> F \<union> Fv" using G'(2) h'(3) c(3) o(6) by auto
  moreover have "\<forall>b. b \<notin> F \<longrightarrow> h' ! b = h ! b" using h'(5) c(3) o(6) by auto
  moreover have "hSetPath x (k # k2 # ks) v h = Inr ((), h')"
    using o c(1) h'(1) by (simp add: hBind_def)
  ultimately show ?case using J h'(4) o(1)
    by (intro exI [of _ h'] exI [of _ "insert a G'"]) (simp_all del: hSetPath.simps)
qed

inductive_cases rep_HNullE: "rep h HNull j F"

inductive_cases rep_HBoolE: "rep h (HBool b) j F"

inductive_cases rep_HNumE: "rep h (HNum n) j F"

inductive_cases rep_HStrE: "rep h (HStr s) j F"

inductive_cases rep_HRefE: "rep h (HRef a) j F"

text \<open>A value of the store is at most one tree.\<close>

lemma rep_fun:
  "rep h v j F \<Longrightarrow> rep h v j' F' \<Longrightarrow> j' = j \<and> F' = F"
  "reps h vs js F \<Longrightarrow> reps h vs js' F' \<Longrightarrow> js' = js \<and> F' = F"
  "repf h kvs kjs F \<Longrightarrow> repf h kvs kjs' F' \<Longrightarrow> kjs' = kjs \<and> F' = F"
proof (induction arbitrary: j' F' and js' F' and kjs' F' rule: rep_reps_repf.inducts)
  case rep_null
  then show ?case by (auto elim: rep_HNullE)
next
  case (rep_bool b)
  then show ?case by (auto elim: rep_HBoolE)
next
  case (rep_num n)
  then show ?case by (auto elim: rep_HNumE)
next
  case (rep_str s)
  then show ?case by (auto elim: rep_HStrE)
next
  case (rep_arr a vs js F)
  from rep_arr.prems rep_arr(2) obtain js2 F2 where
    "reps h vs js2 F2" "j' = JArr js2" "F' = insert a F2"
    by (auto elim: rep_HRefE)
  with rep_arr.IH show ?case by blast
next
  case (rep_obj a kvs kjs F)
  from rep_obj.prems rep_obj(2) obtain kjs2 F2 where
    "repf h kvs kjs2 F2" "j' = JObj kjs2" "F' = insert a F2"
    by (auto elim: rep_HRefE)
  with rep_obj.IH show ?case by blast
next
  case reps_nil
  then show ?case by (simp add: reps_Nil_iff)
next
  case (reps_cons v j F vs js G)
  from reps_cons.prems obtain j2 js2 F2 G2 where
    "js' = j2 # js2" "rep h v j2 F2" "reps h vs js2 G2" "F' = F2 \<union> G2"
    by (auto simp: reps_Cons_iff)
  with reps_cons.IH show ?case by blast
next
  case repf_nil
  then show ?case by (simp add: repf_Nil_iff)
next
  case (repf_cons v j F kvs kjs G k)
  from repf_cons.prems obtain j2 kjs2 F2 G2 where
    "kjs' = (k, j2) # kjs2" "rep h v j2 F2" "repf h kvs kjs2 G2" "F' = F2 \<union> G2"
    by (auto simp: repf_Cons_iff)
  with repf_cons.IH show ?case by blast
qed

text \<open>Reading does not depend on the objects allocated later.\<close>

lemma hGetProp_extends:
  "hGetProp x k h = Inr (vo, h1) \<Longrightarrow> extends h h2 \<Longrightarrow> hGetProp x k h2 = Inr (vo, h2)"
  by (cases x) (auto simp: extends_def nth_append split: if_splits hobj.splits)

lemma hGetProp_heap: "hGetProp x k h = Inr (vo, h1) \<Longrightarrow> h1 = h"
  by (cases x) (auto split: if_splits hobj.splits)

lemma hGetPath_extends:
  "hGetPath x p h = Inr (vo, h1) \<Longrightarrow> extends h h2 \<Longrightarrow> hGetPath x p h2 = Inr (vo, h2)"
proof (induction x p arbitrary: vo rule: hGetPath.induct)
  case (1 x)
  then show ?case by simp
next
  case (2 x k)
  then show ?case by (simp add: hGetProp_extends)
next
  case (3 x k k2 ks)
  from "3.prems"(1) obtain y h0 where
    y: "hGetProp x k h = Inr (Some y, h0)" "hGetPath y (k2 # ks) h0 = Inr (vo, h1)"
    by (auto simp: hBind_Inr_iff split: option.splits)
  from hGetProp_heap [OF y(1)] have h0: "h0 = h" .
  from hGetProp_extends [OF y(1) "3.prems"(2)] "3.IH" [OF y(2) [unfolded h0] "3.prems"(2)]
  show ?case by (simp add: hBind_def)
qed

lemma evolves_refl: "evolves h F h F"
  by (simp add: evolves_def)

lemma evolves_trans:
  assumes "evolves h F h1 F1" "evolves h1 F1 h2 F2"
  shows "evolves h F h2 F2"
proof -
  have "h2 ! a = h ! a" if a: "a < length h" "a \<notin> F" for a
  proof -
    from a assms(1) have "a \<notin> F1" "a < length h1" "h1 ! a = h ! a"
      by (auto simp: evolves_def)
    with assms(2) show ?thesis by (simp add: evolves_def)
  qed
  moreover have "F2 \<subseteq> F \<union> {length h..<length h2}"
  proof
    fix x assume "x \<in> F2"
    with assms(2) have "x \<in> F1 \<or> (length h1 \<le> x \<and> x < length h2)"
      by (auto simp: evolves_def)
    moreover from assms(1) have "F1 \<subseteq> F \<union> {length h..<length h1}" "length h \<le> length h1"
      by (auto simp: evolves_def)
    moreover from assms(2) have "length h1 \<le> length h2" by (simp add: evolves_def)
    ultimately show "x \<in> F \<union> {length h..<length h2}" by auto
  qed
  moreover have "length h \<le> length h2" using assms by (simp add: evolves_def)
  ultimately show ?thesis by (simp add: evolves_def)
qed

lemma simulates_return: "rep h x J F \<Longrightarrow> simulates h x F (hReturn r) r J"
  by (auto simp: simulates_def evolves_refl)

lemma simulates_bind:
  assumes "simulates h x F m1 () J1"
    and "\<And>h1 F1. rep h1 x J1 F1 \<Longrightarrow> simulates h1 x F1 m2 r J2"
  shows "simulates h x F (hBind m1 (\<lambda>_. m2)) r J2"
proof -
  from assms(1) obtain h1 F1 where
    a: "m1 h = Inr ((), h1)" "rep h1 x J1 F1" "evolves h F h1 F1"
    by (auto simp: simulates_def)
  from assms(2) [OF a(2)] obtain h2 F2 where
    b: "m2 h1 = Inr (r, h2)" "rep h2 x J2 F2" "evolves h1 F1 h2 F2"
    by (auto simp: simulates_def)
  from a(1) b(1) have "hBind m1 (\<lambda>_. m2) h = Inr (r, h2)" by (simp add: hBind_def)
  with b(2) evolves_trans [OF a(3) b(3)] show ?thesis by (auto simp: simulates_def)
qed

text \<open>Writing a new, empty object or array.\<close>

lemma alloc_setPath_sim:
  assumes r: "rep h x J F" and s: "setPath J p d = Inr J'" and p: "p \<noteq> []"
    and ob: "(ob = HObj [] \<and> d = JObj []) \<or> (ob = HArr [] \<and> d = JArr [])"
  shows "simulates h x F (hBind (hAlloc ob) (\<lambda>n. hSetPath x p n)) () J'"
proof -
  let ?n = "length h" and ?h1 = "h @ [ob]"
  have e: "extends h ?h1" by (rule extends_append)
  have r1: "rep ?h1 x J F" using rep_extends(1) [OF e r] .
  have rn: "rep ?h1 (HRef ?n) d {?n}"
    using ob rep_obj [of ?n ?h1 "[]" "[]" "{}"] rep_arr [of ?n ?h1 "[]" "[]" "{}"]
    by (auto intro: repf_nil reps_nil)
  have d: "{?n} \<inter> F = {}" using rep_bounded(1) [OF r] by auto
  from setPath_sim [OF r1 rn s p] d obtain h' F' where
    h': "hSetPath x p (HRef ?n) ?h1 = Inr ((), h')" "rep h' x J' F'" "F' \<subseteq> F \<union> {?n}"
      "length h' = length ?h1" "\<forall>a. a \<notin> F \<longrightarrow> h' ! a = ?h1 ! a"
    by auto
  have "evolves h F h' F'"
    using h'(3,4,5) by (auto simp: evolves_def nth_append)
  moreover have "hBind (hAlloc ob) (\<lambda>n. hSetPath x p n) h = Inr ((), h')"
    using h'(1) by (simp add: hBind_def)
  ultimately show ?thesis using h'(2) by (auto simp: simulates_def)
qed

lemma ensure_sim:
  assumes r: "rep h x J F" and e: "ensure J p d = Inr J'" and p: "p \<noteq> []"
    and ob: "(ob = HObj [] \<and> d = JObj []) \<or> (ob = HArr [] \<and> d = JArr [])"
  shows "simulates h x F (hEnsure x p ob) () J'"
proof -
  from e obtain jo where g: "getPath J p = Inr jo"
    and c: "(if truthy jo then Inr J else setPath J p d) = Inr J'"
    by (auto simp: ensure_def bindE_Inr_iff)
  from getPath_sim [OF r g] obtain vo where
    vo: "hGetPath x p h = Inr (vo, h)" "repo h vo jo F" by blast
  from repo_truthy [OF vo(2)] have t: "hTruthy vo = truthy jo" .
  show ?thesis
  proof (cases "truthy jo")
    case True
    with c have "J' = J" by simp
    moreover from True t vo(1) have "hEnsure x p ob h = Inr ((), h)"
      by (simp add: hEnsure_def hBind_def)
    ultimately show ?thesis using r by (auto simp: simulates_def evolves_refl)
  next
    case False
    with c have s: "setPath J p d = Inr J'" by simp
    from False t vo(1)
    have "hEnsure x p ob h = hBind (hAlloc ob) (\<lambda>n. hSetPath x p n) h"
      by (simp add: hEnsure_def hBind_def)
    with alloc_setPath_sim [OF r s p ob] show ?thesis by (simp add: simulates_def)
  qed
qed

lemma addFeature_sim:
  assumes "rep h x J F" "addFeature J key = Inr J'"
  shows "simulates h x F (hAddFeature x key) () J'"
  using alloc_setPath_sim [OF assms(1) assms(2) [unfolded addFeature_def], of "HObj []"]
  by (simp add: hAddFeature_def)

lemma addDatabases_sim:
  "rep h x J F \<Longrightarrow> addDatabases J dbs = Inr J' \<Longrightarrow> simulates h x F (hAddDatabases x dbs) () J'"
proof (induction dbs arbitrary: h J F)
  case Nil
  then show ?case by (simp add: simulates_return del: hReturn_simp)
next
  case (Cons db dbs)
  show ?case
  proof (cases "databaseFeature db")
    case None
    with Cons show ?thesis by simp
  next
    case (Some key)
    with Cons.prems(2) obtain J1 where
      J1: "addFeature J key = Inr J1" "addDatabases J1 dbs = Inr J'"
      by (auto simp: bindE_Inr_iff)
    have "simulates h x F (hBind (hAddFeature x key) (\<lambda>_. hAddDatabases x dbs)) () J'"
      by (rule simulates_bind [OF addFeature_sim [OF Cons.prems(1) J1(1)]])
         (rule Cons.IH [OF _ J1(2)])
    with Some show ?thesis by simp
  qed
qed

lemma addDatabaseFeatures_sim:
  assumes "rep h x J F" "addDatabaseFeatures J dbs = Inr J'"
  shows "simulates h x F (hAddDatabaseFeatures x dbs) () J'"
proof (cases "length dbs > 0")
  case True
  with assms(2) obtain J1 where
    J1: "ensure J [''features''] (JObj []) = Inr J1" "addDatabases J1 dbs = Inr J'"
    by (auto simp: addDatabaseFeatures_def bindE_Inr_iff)
  have "simulates h x F
      (hBind (hEnsure x [''features''] (HObj [])) (\<lambda>_. hAddDatabases x dbs)) () J'"
    by (rule simulates_bind [OF ensure_sim [OF assms(1) J1(1)]])
       (simp_all add: addDatabases_sim [OF _ J1(2)])
  with True show ?thesis by (simp add: hAddDatabaseFeatures_def)
next
  case False
  with assms show ?thesis
    by (simp add: addDatabaseFeatures_def hAddDatabaseFeatures_def simulates_return
        del: hReturn_simp)
qed

lemma addToolFeature_sim:
  assumes "rep h x J F" "addToolFeature J detected key = Inr J'"
  shows "simulates h x F (hAddToolFeature x detected key) () J'"
proof (cases detected)
  case True
  with assms(2) obtain J1 where
    J1: "ensure J [''features''] (JObj []) = Inr J1" "addFeature J1 key = Inr J'"
    by (auto simp: addToolFeature_def bindE_Inr_iff)
  have "simulates h x F
      (hBind (hEnsure x [''features''] (HObj [])) (\<lambda>_. hAddFeature x key)) () J'"
    by (rule simulates_bind [OF ensure_sim [OF assms(1) J1(1)]])
       (simp_all add: addFeature_sim [OF _ J1(2)])
  with True show ?thesis by (simp add: hAddToolFeature_def)
next
  case False
  with assms show ?thesis
    by (simp add: addToolFeature_def hAddToolFeature_def simulates_return del: hReturn_simp)
qed

lemma updateName_sim:
  assumes r: "rep h x J F" and u: "updateName J an = Inr J'"
  shows "simulates h x F (hUpdateName x an) () J'"
proof (cases "length (languages an) > 0 \<or> length (frameworks an) > 0")
  case True
  let ?s = "stackName (languages an) (frameworks an)"
  from True u have s: "setPath J [''name''] (JStr ?s) = Inr J'"
    by (simp add: updateName_def)
  have rs: "rep h (HStr ?s) (JStr ?s) {}" by (rule rep_str)
  from setPath_sim [OF r rs s] obtain h' F' where
    h': "hSetPath x [''name''] (HStr ?s) h = Inr ((), h')" "rep h' x J' F'" "F' \<subseteq> F \<union> {}"
      "length h' = length h" "\<forall>a. a \<notin> F \<longrightarrow> h' ! a = h ! a"
    by auto
  have "evolves h F h' F'" using h'(3,4,5) by (auto simp: evolves_def)
  with h'(1,2) True show ?thesis by (auto simp: simulates_def hUpdateName_def)
next
  case False
  with assms show ?thesis
    by (simp add: updateName_def hUpdateName_def simulates_return del: hReturn_simp)
qed

lemma reps_length: "reps h vs js G \<Longrightarrow> length vs = length js"
  by (induction vs arbitrary: js G) (auto simp: reps_Nil_iff reps_Cons_iff)

lemma reps_appendI:
  "reps h xs js1 G1 \<Longrightarrow> reps h ys js2 G2 \<Longrightarrow> G1 \<inter> G2 = {} \<Longrightarrow>
   reps h (xs @ ys) (js1 @ js2) (G1 \<union> G2)"
proof (induction xs arbitrary: js1 G1)
  case Nil
  then show ?case by (simp add: reps_Nil_iff)
next
  case (Cons v xs)
  from Cons.prems(1) obtain j js F G where
    s: "js1 = j # js" "rep h v j F" "reps h xs js G" "F \<inter> G = {}" "G1 = F \<union> G"
    by (auto simp: reps_Cons_iff)
  from Cons.prems(3) s(5) have "G \<inter> G2 = {}" by auto
  from Cons.IH [OF s(3) Cons.prems(2) this] have t: "reps h (xs @ ys) (js @ js2) (G \<union> G2)" .
  from Cons.prems(3) s(4,5) have "F \<inter> (G \<union> G2) = {}" by auto
  from reps_cons [OF s(2) t this] s(1,5) show ?case by (simp add: Un_assoc)
qed

lemma reps_appendD:
  "reps h (xs @ ys) js G \<Longrightarrow>
   \<exists>js1 js2 G1 G2. js = js1 @ js2 \<and> length js1 = length xs \<and> reps h xs js1 G1
      \<and> reps h ys js2 G2 \<and> G1 \<inter> G2 = {} \<and> G = G1 \<union> G2"
proof (induction xs arbitrary: js G)
  case Nil
  then show ?case by (auto intro: reps_nil)
next
  case (Cons v xs)
  from Cons.prems obtain j js0 F G0 where
    s: "js = j # js0" "rep h v j F" "reps h (xs @ ys) js0 G0" "F \<inter> G0 = {}" "G = F \<union> G0"
    by (auto simp: reps_Cons_iff)
  from Cons.IH [OF s(3)] obtain js1 js2 G1 G2 where
    t: "js0 = js1 @ js2" "length js1 = length xs" "reps h xs js1 G1" "reps h ys js2 G2"
       "G1 \<inter> G2 = {}" "G0 = G1 \<union> G2"
    by blast
  from s(4) t(6) have "F \<inter> G1 = {}" by auto
  from reps_cons [OF s(2) t(3) this] have "reps h (v # xs) (j # js1) (F \<union> G1)" .
  moreover have "(F \<union> G1) \<inter> G2 = {}" using s(4) t(5,6) by auto
  moreover have "G = (F \<union> G1) \<union> G2" using s(5) t(6) by auto
  ultimately show ?case using s(1) t(1,2,4)
    by (intro exI [of _ "j # js1"] exI [of _ js2] exI [of _ "F \<union> G1"] exI [of _ G2]) simp
qed

lemma reps_numbers: "reps h (map HNum ps) (map JNum ps) {}"
proof (induction ps)
  case Nil
  then show ?case by (simp add: reps_nil)
next
  case (Cons p ps)
  from reps_cons [OF rep_num Cons, of p] show ?case by simp
qed

lemma reps_strings: "reps h (map HStr es) (map JStr es) {}"
proof (induction es)
  case Nil
  then show ?case by (simp add: reps_nil)
next
  case (Cons e es)
  from reps_cons [OF rep_str Cons, of e] show ?case by simp
qed

lemma reps_chars: "reps h (map (\<lambda>c. HStr [c]) s) (map (\<lambda>c. JStr [c]) s) {}"
proof (induction s)
  case Nil
  then show ?case by (simp add: reps_nil)
next
  case (Cons c s)
  from reps_cons [OF rep_str Cons, of "[c]"] show ?case by simp
qed

text \<open>
  In a set, two values of a tree are the same value exactly when the trees are the same
  for SameValueZero: two objects of a tree are two addresses.
\<close>

lemma same_value:
  assumes "rep h w jw Fw" "rep h v j Fv" "Fw \<inter> Fv = {}"
  shows "w = v \<longleftrightarrow> sameValueZero jw j"
  using assms(1)
proof (cases rule: rep.cases)
  case rep_null
  with assms(2) show ?thesis by (cases rule: rep.cases) auto
next
  case (rep_bool b)
  with assms(2) show ?thesis by (cases rule: rep.cases) auto
next
  case (rep_num n)
  with assms(2) show ?thesis by (cases rule: rep.cases) auto
next
  case (rep_str s)
  with assms(2) show ?thesis by (cases rule: rep.cases) auto
next
  case (rep_arr a vs js F)
  with assms(2,3) show ?thesis by (cases rule: rep.cases) auto
next
  case (rep_obj a kvs kjs F)
  with assms(2,3) show ?thesis by (cases rule: rep.cases) auto
qed

lemma member_same_value:
  "reps h av aj Ga \<Longrightarrow> rep h v j Fv \<Longrightarrow> Ga \<inter> Fv = {} \<Longrightarrow>
   list_ex (\<lambda>y. y = v) av \<longleftrightarrow> list_ex (\<lambda>y. sameValueZero y j) aj"
proof (induction av arbitrary: aj Ga)
  case Nil
  then show ?case by (simp add: reps_Nil_iff)
next
  case (Cons w av)
  from Cons.prems(1) obtain jw aj0 Fw G0 where
    s: "aj = jw # aj0" "rep h w jw Fw" "reps h av aj0 G0" "Ga = Fw \<union> G0"
    by (auto simp: reps_Cons_iff)
  from Cons.prems(3) s(4) have d: "Fw \<inter> Fv = {}" "G0 \<inter> Fv = {}" by auto
  from same_value [OF s(2) Cons.prems(2) d(1)] Cons.IH [OF s(3) Cons.prems(2) d(2)] s(1)
  show ?case by simp
qed

lemma newSet_sim_foldl:
  "reps h (av @ vs) (aj @ js) G \<Longrightarrow> length av = length aj \<Longrightarrow>
   \<exists>G'. reps h (foldl (\<lambda>acc x. if list_ex (\<lambda>y. y = x) acc then acc else acc @ [x]) av vs)
              (foldl (\<lambda>acc x. if list_ex (\<lambda>y. sameValueZero y x) acc then acc else acc @ [x])
                 aj js) G'
        \<and> G' \<subseteq> G"
proof (induction vs arbitrary: av aj js G)
  case Nil
  from reps_length [OF Nil.prems(1)] Nil.prems(2) have "js = []" by simp
  with Nil.prems(1) show ?case by auto
next
  case (Cons v vs)
  from reps_appendD [OF Cons.prems(1)] obtain js1 js2 Ga Gr where
    s: "aj @ js = js1 @ js2" "length js1 = length av" "reps h av js1 Ga"
       "reps h (v # vs) js2 Gr" "Ga \<inter> Gr = {}" "G = Ga \<union> Gr"
    by blast
  from s(1,2) Cons.prems(2) have e: "js1 = aj" "js2 = js" by auto
  from s(4) e(2) obtain j js0 Fv Gs where
    t: "js = j # js0" "rep h v j Fv" "reps h vs js0 Gs" "Fv \<inter> Gs = {}" "Gr = Fv \<union> Gs"
    by (auto simp: reps_Cons_iff)
  from s(5) t(5) have d: "Ga \<inter> Fv = {}" "Ga \<inter> Gs = {}" by auto
  from member_same_value [OF s(3) [unfolded e] t(2) d(1)]
  have m: "list_ex (\<lambda>y. y = v) av \<longleftrightarrow> list_ex (\<lambda>y. sameValueZero y j) aj" .
  show ?case
  proof (cases "list_ex (\<lambda>y. y = v) av")
    case True
    from reps_appendI [OF s(3) [unfolded e] t(3) d(2)]
    have "reps h (av @ vs) (aj @ js0) (Ga \<union> Gs)" .
    from Cons.IH [OF this Cons.prems(2)] obtain G' where
      "reps h (foldl (\<lambda>acc x. if list_ex (\<lambda>y. y = x) acc then acc else acc @ [x]) av vs)
              (foldl (\<lambda>acc x. if list_ex (\<lambda>y. sameValueZero y x) acc then acc else acc @ [x])
                 aj js0) G'" "G' \<subseteq> Ga \<union> Gs"
      by blast
    moreover have "Ga \<union> Gs \<subseteq> G" using s(6) t(5) by auto
    ultimately show ?thesis using True m t(1) by auto
  next
    case False
    from Cons.prems(1) t(1) have "reps h ((av @ [v]) @ vs) ((aj @ [j]) @ js0) G" by simp
    from Cons.IH [OF this] Cons.prems(2) obtain G' where
      "reps h (foldl (\<lambda>acc x. if list_ex (\<lambda>y. y = x) acc then acc else acc @ [x]) (av @ [v]) vs)
              (foldl (\<lambda>acc x. if list_ex (\<lambda>y. sameValueZero y x) acc then acc else acc @ [x])
                 (aj @ [j]) js0) G'" "G' \<subseteq> G"
      by auto
    then show ?thesis using False m t(1) by auto
  qed
qed

lemma newSet_sim:
  assumes "reps h vs js G"
  shows "\<exists>G'. reps h (newSet (=) vs) (newSet sameValueZero js) G' \<and> G' \<subseteq> G"
  using newSet_sim_foldl [of h "[]" vs "[]" js G] assms by (simp add: newSet_def)

lemma spread_sim:
  assumes r: "rep h v j F" and s: "spread j = Inr js"
  shows "\<exists>vs G. hSpread v h = Inr (vs, h) \<and> reps h vs js G \<and> G \<subseteq> F"
proof (cases j)
  case (JArr xs)
  with r s show ?thesis by (auto elim!: rep_JArrE)
next
  case (JStr t)
  with r s reps_chars [of h t] show ?thesis by (auto elim!: rep_JStrE)
qed (use s in simp_all)

lemma orElse_sim:
  assumes "repo h vo jo F"
  shows "\<exists>v h1 Fe. hOrElseArray vo h = Inr (v, h1) \<and> rep h1 v (orElse jo (JArr [])) Fe
      \<and> ((h1 = h \<and> vo = Some v \<and> Fe \<subseteq> F) \<or> (h1 = h @ [HArr []] \<and> Fe = {length h}))"
proof (cases "truthy jo")
  case True
  then obtain j where j: "jo = Some j" by (cases jo) auto
  with assms obtain v Fv where v: "vo = Some v" "rep h v j Fv" "Fv \<subseteq> F"
    by (auto simp: repo_def)
  from repo_truthy [OF assms] True have "hTruthy vo" by simp
  with v j True show ?thesis by (auto simp: hOrElseArray_def orElse_def)
next
  case False
  from repo_truthy [OF assms] False have t: "\<not> hTruthy vo" by simp
  then have "hOrElseArray vo h = Inr (HRef (length h), h @ [HArr []])"
    by (cases vo) (simp_all add: hOrElseArray_def)
  moreover from False have "orElse jo (JArr []) = JArr []"
    by (cases jo) (simp_all add: orElse_def)
  moreover have "rep (h @ [HArr []]) (HRef (length h)) (JArr []) {length h}"
    using rep_arr [of "length h" "h @ [HArr []]" "[]" "[]" "{}"] by (simp add: reps_nil)
  ultimately show ?thesis by auto
qed

text \<open>
  The merge of a list into the array at a path: the new array holds the values of the
  old one, which it replaces.
\<close>

lemma merge_sim:
  assumes r: "rep h x J F" and g: "getPath J p = Inr jo"
    and sp: "spread (orElse jo (JArr [])) = Inr js"
    and st: "setPath J p (JArr (newSet sameValueZero (js @ js2))) = Inr J'"
    and pr: "\<And>h. reps h vs2 js2 {}" and p: "p \<noteq> []"
  shows "simulates h x F
      (hBind (hGetPath x p) (\<lambda>e. hBind (hOrElseArray e) (\<lambda>ex. hBind (hSpread ex) (\<lambda>elems.
         hBind (hAlloc (HArr (newSet (=) (elems @ vs2)))) (\<lambda>m. hSetPath x p m))))) () J'"
proof -
  from getPath_sim [OF r g] obtain vo where
    vo: "hGetPath x p h = Inr (vo, h)" "repo h vo jo F" by blast
  from orElse_sim [OF vo(2)] obtain v h1 Fe where
    v: "hOrElseArray vo h = Inr (v, h1)" "rep h1 v (orElse jo (JArr [])) Fe"
    and c: "(h1 = h \<and> vo = Some v \<and> Fe \<subseteq> F) \<or> (h1 = h @ [HArr []] \<and> Fe = {length h})"
    by blast
  from c have e1: "extends h h1" by (auto simp: extends_def)
  from spread_sim [OF v(2) sp] obtain elems Ge where
    el: "hSpread v h1 = Inr (elems, h1)" "reps h1 elems js Ge" "Ge \<subseteq> Fe" by blast
  from reps_appendI [OF el(2) pr] have "reps h1 (elems @ vs2) (js @ js2) Ge" by simp
  from newSet_sim [OF this] obtain G' where
    G': "reps h1 (newSet (=) (elems @ vs2)) (newSet sameValueZero (js @ js2)) G'" "G' \<subseteq> Ge"
    by blast
  let ?m = "newSet (=) (elems @ vs2)" and ?n = "length h1"
  let ?h2 = "h1 @ [HArr ?m]"
  have e2: "extends h1 ?h2" by (rule extends_append)
  have e: "extends h ?h2" by (rule extends_trans [OF e1 e2])
  have "?n \<notin> G'" using rep_bounded(2) [OF G'(1)] by auto
  with rep_extends(2) [OF e2 G'(1)]
  have rn: "rep ?h2 (HRef ?n) (JArr (newSet sameValueZero (js @ js2))) (insert ?n G')"
    by (intro rep_arr) simp_all
  have r2: "rep ?h2 x J F" by (rule rep_extends(1) [OF e r])
  have g2: "hGetPath x p ?h2 = Inr (vo, ?h2)" by (rule hGetPath_extends [OF vo(1) e])
  have b: "F \<subseteq> {..<length h}" by (rule rep_bounded(1) [OF r])
  have l: "length h \<le> ?n" by (rule extends_length [OF e1])
  have nF: "?n \<notin> F" using b l by auto
  have p5: "hGetPath x p ?h2 = Inr (None, ?h2) \<longrightarrow> insert ?n G' \<inter> F = {}"
  proof
    assume "hGetPath x p ?h2 = Inr (None, ?h2)"
    with g2 have "vo = None" by simp
    with c have "Fe = {length h}" by auto
    with G'(2) el(3) b nF show "insert ?n G' \<inter> F = {}" by auto
  qed
  have p6: "\<forall>w jw Fo. hGetPath x p ?h2 = Inr (Some w, ?h2) \<longrightarrow> rep ?h2 w jw Fo \<longrightarrow>
      insert ?n G' \<inter> (F - Fo) = {}"
  proof (intro allI impI)
    fix w jw Fo assume a: "hGetPath x p ?h2 = Inr (Some w, ?h2)" "rep ?h2 w jw Fo"
    from c show "insert ?n G' \<inter> (F - Fo) = {}"
    proof
      assume c1: "h1 = h \<and> vo = Some v \<and> Fe \<subseteq> F"
      with a(1) g2 have "w = v" by simp
      with rep_fun(1) [OF rep_extends(1) [OF e2 v(2)]] a(2) have "Fo = Fe" by simp
      with G'(2) el(3) nF show ?thesis by auto
    next
      assume "h1 = h @ [HArr []] \<and> Fe = {length h}"
      with G'(2) el(3) b nF show ?thesis by auto
    qed
  qed
  from setPath_sim [OF r2 rn st p p5 p6] obtain h' F' where
    h': "hSetPath x p (HRef ?n) ?h2 = Inr ((), h')" "rep h' x J' F'" "F' \<subseteq> F \<union> insert ?n G'"
      "length h' = length ?h2" "\<forall>a. a \<notin> F \<longrightarrow> h' ! a = ?h2 ! a"
    by blast
  have "h' ! a = h ! a" if "a < length h" "a \<notin> F" for a
    using that h'(5) extends_nth [OF e] by simp
  moreover have "G' \<subseteq> F \<union> {length h..<length h'}"
    using c G'(2) el(3) h'(4) by auto
  ultimately have "evolves h F h' F'" using h'(3,4) l by (auto simp: evolves_def)
  moreover have "hBind (hGetPath x p) (\<lambda>e. hBind (hOrElseArray e) (\<lambda>ex. hBind (hSpread ex)
      (\<lambda>elems. hBind (hAlloc (HArr (newSet (=) (elems @ vs2)))) (\<lambda>m. hSetPath x p m)))) h
      = Inr ((), h')"
    using vo(1) v(1) el(1) h'(1) by (simp add: hBind_def)
  ultimately show ?thesis using h'(2) unfolding simulates_def by blast
qed

lemma mergePorts_sim:
  assumes r: "rep h x J F" and m: "mergePorts J ps = Inr J'"
  shows "simulates h x F (hMergePorts x ps) () J'"
proof (cases "length ps > 0")
  case True
  with m obtain jo js where
    a: "getPath J [''forwardPorts''] = Inr jo" "spread (orElse jo (JArr [])) = Inr js"
       "setPath J [''forwardPorts''] (JArr (newSet sameValueZero (js @ map JNum ps))) = Inr J'"
    by (auto simp: mergePorts_def bindE_Inr_iff)
  from merge_sim [OF r a reps_numbers] True show ?thesis by (simp add: hMergePorts_def)
next
  case False
  with assms show ?thesis
    by (simp add: mergePorts_def hMergePorts_def simulates_return del: hReturn_simp)
qed

lemma mergeExtensions_sim:
  assumes r: "rep h x J F" and m: "mergeExtensions J exts = Inr J'"
  shows "simulates h x F (hMergeExtensions x exts) () J'"
proof (cases "length exts > 0")
  case True
  let ?p = "[''customizations'', ''vscode'', ''extensions'']"
  from True m obtain c1 c2 c3 jo js where
    a: "ensure J [''customizations''] (JObj []) = Inr c1"
       "ensure c1 [''customizations'', ''vscode''] (JObj []) = Inr c2"
       "ensure c2 ?p (JArr []) = Inr c3"
    and b: "getPath c3 ?p = Inr jo" "spread (orElse jo (JArr [])) = Inr js"
       "setPath c3 ?p (JArr (newSet sameValueZero (js @ map JStr exts))) = Inr J'"
    unfolding mergeExtensions_def by (auto simp: bindE_Inr_iff)
  have "simulates h x F
     (hBind (hEnsure x [''customizations''] (HObj [])) (\<lambda>_.
      hBind (hEnsure x [''customizations'', ''vscode''] (HObj [])) (\<lambda>_.
      hBind (hEnsure x ?p (HArr [])) (\<lambda>_.
      hBind (hGetPath x ?p) (\<lambda>e. hBind (hOrElseArray e) (\<lambda>ex. hBind (hSpread ex) (\<lambda>elems.
         hBind (hAlloc (HArr (newSet (=) (elems @ map HStr exts)))) (\<lambda>m. hSetPath x ?p m)))))))) () J'"
  proof (rule simulates_bind [OF ensure_sim [OF r a(1)]])
    fix h1 F1 assume r1: "rep h1 x c1 F1"
    show "simulates h1 x F1
     (hBind (hEnsure x [''customizations'', ''vscode''] (HObj [])) (\<lambda>_.
      hBind (hEnsure x ?p (HArr [])) (\<lambda>_.
      hBind (hGetPath x ?p) (\<lambda>e. hBind (hOrElseArray e) (\<lambda>ex. hBind (hSpread ex) (\<lambda>elems.
         hBind (hAlloc (HArr (newSet (=) (elems @ map HStr exts)))) (\<lambda>m. hSetPath x ?p m))))))) () J'"
    proof (rule simulates_bind [OF ensure_sim [OF r1 a(2)]])
      fix h2 F2 assume r2: "rep h2 x c2 F2"
      show "simulates h2 x F2
       (hBind (hEnsure x ?p (HArr [])) (\<lambda>_.
        hBind (hGetPath x ?p) (\<lambda>e. hBind (hOrElseArray e) (\<lambda>ex. hBind (hSpread ex) (\<lambda>elems.
         hBind (hAlloc (HArr (newSet (=) (elems @ map HStr exts)))) (\<lambda>m. hSetPath x ?p m)))))) () J'"
      proof (rule simulates_bind [OF ensure_sim [OF r2 a(3)]])
        fix h3 F3 assume r3: "rep h3 x c3 F3"
        from merge_sim [OF r3 b reps_strings]
        show "simulates h3 x F3
          (hBind (hGetPath x ?p) (\<lambda>e. hBind (hOrElseArray e) (\<lambda>ex. hBind (hSpread ex) (\<lambda>elems.
           hBind (hAlloc (HArr (newSet (=) (elems @ map HStr exts)))) (\<lambda>m. hSetPath x ?p m))))) () J'"
          by simp
      qed simp_all
    qed simp_all
  qed simp_all
  with True show ?thesis unfolding hMergeExtensions_def by (simp only: if_True)
next
  case False
  with assms show ?thesis
    by (simp add: mergeExtensions_def hMergeExtensions_def simulates_return del: hReturn_simp)
qed

lemma prefix_take:
  "length h \<le> length h' \<Longrightarrow> \<forall>a<length h. h' ! a = h ! a \<Longrightarrow> take (length h) h' = h"
  by (simp add: list_eq_iff_nth_eq)

text \<open>
  \<open>generateConfig\<close> on the store computes the document of \<open>generateConfig\<close> on trees, in
  objects that it allocates, and it writes to no object that was there before the call.
\<close>

lemma generateConfigStore_sim:
  assumes r: "rep h cfg (JObj (config t)) F0" and g: "generateConfig t an = Inr J'"
  shows "\<exists>c h' F'. generateConfigStore cfg an h = Inr (c, h') \<and> rep h' c J' F'
     \<and> F' \<subseteq> {length h..<length h'} \<and> length h \<le> length h'
     \<and> (\<forall>a<length h. h' ! a = h ! a)"
proof -
  let ?J = "JObj (config t)"
  from rep_toJson(1) [OF r, of "[]"] have tj: "toJson h [] cfg = Some ?J" by simp
  obtain c h1 where f: "fromJson ?J h = (c, h1)" by (cases "fromJson ?J h")
  from fromJson_rep(1) [OF f] obtain Fc where
    c: "extends h h1" "rep h1 c ?J Fc" "Fc \<subseteq> {length h..<length h1}" by blast
  from g obtain J1 J2 J3 J4 J5 where
    s: "mergePorts ?J (ports an) = Inr J1" "mergeExtensions J1 (extensions an) = Inr J2"
       "addDatabaseFeatures J2 (databases an) = Inr J3"
       "addToolFeature J3 (''docker'' \<in> set (tools an)) dockerFeature = Inr J4"
       "addToolFeature J4 (''git'' \<in> set (tools an)) gitFeature = Inr J5"
       "updateName J5 an = Inr J'"
    unfolding generateConfig_def jsonClone_def bindE_Inr_iff by blast
  let ?m = "hBind (hMergePorts c (ports an)) (\<lambda>_.
     hBind (hMergeExtensions c (extensions an)) (\<lambda>_.
     hBind (hAddDatabaseFeatures c (databases an)) (\<lambda>_.
     hBind (hAddToolFeature c (''docker'' \<in> set (tools an)) dockerFeature) (\<lambda>_.
     hBind (hAddToolFeature c (''git'' \<in> set (tools an)) gitFeature) (\<lambda>_.
     hBind (hUpdateName c an) (\<lambda>_.
     hReturn c))))))"
  have "simulates h1 c Fc ?m c J'"
    apply (rule simulates_bind [OF mergePorts_sim [OF c(2) s(1)]])
    apply (rule simulates_bind [OF mergeExtensions_sim [OF _ s(2)]], assumption)
    apply (rule simulates_bind [OF addDatabaseFeatures_sim [OF _ s(3)]], assumption)
    apply (rule simulates_bind [OF addToolFeature_sim [OF _ s(4)]], assumption)
    apply (rule simulates_bind [OF addToolFeature_sim [OF _ s(5)]], assumption)
    apply (rule simulates_bind [OF updateName_sim [OF _ s(6)]], assumption)
    apply (erule simulates_return)
    done
  then obtain h' F' where
    h': "?m h1 = Inr (c, h')" "rep h' c J' F'" "evolves h1 Fc h' F'"
    unfolding simulates_def by blast
  from tj f h'(1) have "generateConfigStore cfg an h = Inr (c, h')"
    by (simp add: generateConfigStore_def hClone_def hBind_def del: hReturn_simp)
  moreover have "F' \<subseteq> {length h..<length h'}"
  proof
    fix x assume "x \<in> F'"
    with h'(3) have "x \<in> Fc \<or> (length h1 \<le> x \<and> x < length h')"
      by (auto simp: evolves_def)
    moreover from h'(3) have "length h1 \<le> length h'" by (simp add: evolves_def)
    moreover note c(3) extends_length [OF c(1)]
    ultimately show "x \<in> {length h..<length h'}" by auto
  qed
  moreover have "length h \<le> length h'"
    using h'(3) extends_length [OF c(1)] by (simp add: evolves_def)
  moreover have "h' ! a = h ! a" if a: "a < length h" for a
  proof -
    from a c(3) have "a \<notin> Fc" by auto
    moreover from a extends_length [OF c(1)] have "a < length h1" by simp
    ultimately have "h' ! a = h1 ! a" using h'(3) by (simp add: evolves_def)
    with extends_nth [OF c(1) a] show ?thesis by simp
  qed
  ultimately show ?thesis using h'(2) by blast
qed

text \<open>Every document of the catalog has the types of a configuration document.\<close>

lemma templates_documents: "list_all (\<lambda>t. isConfigDocument (JObj (config t))) templates"
  by code_simp

section \<open>Template selection: claims\<close>

lemma templateScore_catalog_rust:
  "list_all (\<lambda>k. 15 \<le> templateScore (templates ! k) [''rust''] [''actix''] \<longrightarrow> k = 3) [0..<11]"
  by code_simp

text \<open>
  C1, as amended. The score of a template is 10 for every input language and 5 for every
  input framework whose lower-cased form the template lists, less 1 for the template named
  universal. When some template scores above zero, \<open>findBestMatch\<close> returns the first
  template of the catalog among those with the highest score; when none does, it returns
  the universal template, although its score is then the lowest.
\<close>

theorem findBestMatch_selection:
  "templateScore t langs fws =
       10 * int (length (filter (\<lambda>l. toLowerCase l \<in> set (DevContainerTemplate.languages t)) langs))
     + 5 * int (length (filter (\<lambda>f. toLowerCase f \<in> set (DevContainerTemplate.frameworks t)) fws))
     - (if name t = ''universal'' then 1 else 0)
   \<and> ((\<exists>u\<in>set templates. 0 < templateScore u langs fws) \<longrightarrow>
        (\<exists>i<length templates. findBestMatch langs fws = Some (templates ! i)
           \<and> (\<forall>j<length templates.
                 templateScore (templates ! j) langs fws \<le> templateScore (templates ! i) langs fws)
           \<and> (\<forall>j<i. templateScore (templates ! j) langs fws
                       < templateScore (templates ! i) langs fws)))
   \<and> ((\<forall>u\<in>set templates. templateScore u langs fws \<le> 0) \<longrightarrow>
        findBestMatch langs fws = Some tplUniversal)"
proof (intro conjI impI)
  show "templateScore t langs fws =
       10 * int (length (filter (\<lambda>l. toLowerCase l \<in> set (DevContainerTemplate.languages t)) langs))
     + 5 * int (length (filter (\<lambda>f. toLowerCase f \<in> set (DevContainerTemplate.frameworks t)) fws))
     - (if name t = ''universal'' then 1 else 0)"
    by (rule templateScore_formula)
next
  assume "\<exists>u\<in>set templates. 0 < templateScore u langs fws"
  from findBestMatch_positive [OF this]
  show "\<exists>i<length templates. findBestMatch langs fws = Some (templates ! i)
           \<and> (\<forall>j<length templates.
                 templateScore (templates ! j) langs fws \<le> templateScore (templates ! i) langs fws)
           \<and> (\<forall>j<i. templateScore (templates ! j) langs fws
                       < templateScore (templates ! i) langs fws)"
    by blast
next
  assume "\<forall>u\<in>set templates. templateScore u langs fws \<le> 0"
  then show "findBestMatch langs fws = Some tplUniversal"
    by (rule findBestMatch_fallback)
qed

theorem findBestMatch_selection_witness:
  "templateScore tplRust [''rust''] [''actix''] = 15
   \<and> findBestMatch [''rust''] [''actix''] = Some tplRust
   \<and> findBestMatch [] [] = Some tplUniversal"
proof -
  note inst = findBestMatch_selection [of tplRust "[''rust'']" "[''actix'']"]
  have score: "templateScore tplRust [''rust''] [''actix''] = 15"
    using inst by (simp add: tplRust_def toLowerCase_def toLowerChar_def)
  have rust: "templates ! 3 = tplRust" by (simp add: templates_def)
  have len: "length templates = 11" by (simp add: templates_def)
  have "tplRust \<in> set templates" by (simp add: templates_def)
  with score have "\<exists>u\<in>set templates. 0 < templateScore u [''rust''] [''actix'']"
    by (intro bexI [of _ tplRust]) simp_all
  with inst obtain i where i: "i < length templates"
    "findBestMatch [''rust''] [''actix''] = Some (templates ! i)"
    "\<forall>j<length templates. templateScore (templates ! j) [''rust''] [''actix'']
        \<le> templateScore (templates ! i) [''rust''] [''actix'']"
    by blast
  from i(3) len have "templateScore (templates ! 3) [''rust''] [''actix'']
      \<le> templateScore (templates ! i) [''rust''] [''actix'']"
    by simp
  with rust score have "15 \<le> templateScore (templates ! i) [''rust''] [''actix'']"
    by simp
  with templateScore_catalog_rust i(1) len have "i = 3"
    by (simp add: list_all_iff)
  with i(2) rust have r: "findBestMatch [''rust''] [''actix''] = Some tplRust" by simp
  have "\<forall>u\<in>set templates. templateScore u [] [] \<le> 0"
    by code_simp
  with findBestMatch_selection [of tplUniversal "[]" "[]"]
  have "findBestMatch [] [] = Some tplUniversal" by blast
  with score r show ?thesis by simp
qed

text \<open>
  C1 as stated fails when no language and no framework is given: every template scores 0
  except the universal one, which scores -1, and \<open>findBestMatch\<close> returns the universal
  one, not the first template with the highest score.
\<close>

theorem findBestMatch_highest_counterexample:
  "findBestMatch [] [] = Some tplUniversal
   \<and> templates ! 0 = tplNodejsTypescript
   \<and> templateScore tplNodejsTypescript [] [] = 0
   \<and> templateScore tplUniversal [] [] = - 1"
  by code_simp

text \<open>
  C2. When every template of the catalog has raw score zero, \<open>findBestMatch\<close> returns the
  template named universal; so it does for two empty lists; and for \<open>["rust"]\<close> and
  \<open>["actix"]\<close> it returns the template named rust, which is not the universal one.
\<close>

theorem findBestMatch_fallback_universal:
  "((\<forall>t\<in>set templates. rawScore t langs fws = 0) \<longrightarrow>
        findBestMatch langs fws = Some tplUniversal)
   \<and> name tplUniversal = ''universal''
   \<and> findBestMatch [] [] = Some tplUniversal
   \<and> map_option name (findBestMatch [''rust''] [''actix'']) = Some ''rust''
   \<and> findBestMatch [''rust''] [''actix''] \<noteq> Some tplUniversal"
proof (intro conjI impI)
  assume raw: "\<forall>t\<in>set templates. rawScore t langs fws = 0"
  have "\<forall>t\<in>set templates. templateScore t langs fws \<le> 0"
  proof
    fix t assume "t \<in> set templates"
    with raw have "rawScore t langs fws = 0" by blast
    then show "templateScore t langs fws \<le> 0" by (simp add: templateScore_def)
  qed
  then show "findBestMatch langs fws = Some tplUniversal"
    by (rule findBestMatch_fallback)
next
  show "name tplUniversal = ''universal''" by (simp add: tplUniversal_def)
  show "findBestMatch [] [] = Some tplUniversal" by code_simp
  show "map_option name (findBestMatch [''rust''] [''actix'']) = Some ''rust''" by code_simp
  show "findBestMatch [''rust''] [''actix''] \<noteq> Some tplUniversal" by code_simp
qed

theorem findBestMatch_fallback_universal_witness:
  "rawScore tplRust [''unknown-language''] [''unknown-framework''] = 0
   \<and> findBestMatch [''unknown-language''] [''unknown-framework''] = Some tplUniversal"
proof -
  have h: "\<forall>t\<in>set templates. rawScore t [''unknown-language''] [''unknown-framework''] = 0"
    by code_simp
  moreover have "tplRust \<in> set templates" by (simp add: templates_def)
  ultimately have "rawScore tplRust [''unknown-language''] [''unknown-framework''] = 0"
    by blast
  with h findBestMatch_fallback_universal [of "[''unknown-language'']" "[''unknown-framework'']"]
  show ?thesis by blast
qed

text \<open>
  C9. \<open>findBestMatch\<close> never returns null: its result is a template of the catalog.
\<close>

theorem findBestMatch_not_null:
  "findBestMatch langs fws \<noteq> None \<and> (\<exists>t. findBestMatch langs fws = Some t \<and> t \<in> set templates)"
proof -
  have u: "tplUniversal \<in> set templates" by (simp add: templates_def)
  show ?thesis
  proof (cases "\<exists>u\<in>set templates. 0 < templateScore u langs fws")
    case True
    from findBestMatch_positive [OF True] obtain i where
      "i < length templates" "findBestMatch langs fws = Some (templates ! i)" by blast
    then show ?thesis by (auto intro: nth_mem)
  next
    case False
    then have "\<forall>u\<in>set templates. templateScore u langs fws \<le> 0" by (simp add: not_less)
    from findBestMatch_fallback [OF this] u show ?thesis by simp
  qed
qed

section \<open>Synthesis and patching: claims\<close>

text \<open>
  C4. The document that \<open>applyModifications\<close> returns differs from the document it was
  given only at \<open>forwardPorts\<close>, at \<open>customizations.vscode.extensions\<close> and in the
  features block: every other property, at the top level, inside \<open>customizations\<close> and
  inside \<open>customizations.vscode\<close>, is there with its value, in its place. On a document of
  the shape of the data model the operation does return a document.
\<close>

theorem applyModifications_frame:
  "(isConfigDocument doc \<longrightarrow> (\<exists>doc'. applyModifications doc a = Inr doc'))
   \<and> (\<forall>doc'. applyModifications doc a = Inr doc' \<longrightarrow>
         framed doc doc'
         \<and> (\<forall>k. k \<notin> {''forwardPorts'', ''customizations'', ''features''} \<longrightarrow>
                field doc' k = field doc k))"
proof (intro conjI impI allI)
  assume "isConfigDocument doc"
  then show "\<exists>doc'. applyModifications doc a = Inr doc'"
    by (rule applyModifications_total)
next
  fix doc' assume r: "applyModifications doc a = Inr doc'"
  then show f: "framed doc doc'" by (rule applyModifications_framed)
  fix k assume k: "k \<notin> {''forwardPorts'', ''customizations'', ''features''}"
  from f have "without {''forwardPorts'', ''customizations'', ''features''} (fieldsOf (Some doc'))
      = without {''forwardPorts'', ''customizations'', ''features''} (fieldsOf (Some doc))"
    by (simp add: framed_def)
  then have "map_of (without {''forwardPorts'', ''customizations'', ''features''} (fieldsOf (Some doc'))) k
      = map_of (without {''forwardPorts'', ''customizations'', ''features''} (fieldsOf (Some doc))) k"
    by simp
  with map_of_without [OF k] show "field doc' k = field doc k"
    by (simp add: field_def)
qed

theorem applyModifications_frame_witness:
  "isConfigDocument testConfig
   \<and> applyModifications testConfig (analyzePrompt ''Add Python support'') =
       Inr (JObj [
         (''name'', JStr ''Test Development''),
         (''image'', JStr ''mcr.microsoft.com/devcontainers/base:ubuntu''),
         (''features'', JObj []),
         (''customizations'', JObj [(''vscode'', JObj [(''extensions'',
             JArr [JStr ''ms-python.python'', JStr ''ms-python.pylint''])])]),
         (''forwardPorts'', JArr [])])
   \<and> framed testConfig (JObj [
         (''name'', JStr ''Test Development''),
         (''image'', JStr ''mcr.microsoft.com/devcontainers/base:ubuntu''),
         (''features'', JObj []),
         (''customizations'', JObj [(''vscode'', JObj [(''extensions'',
             JArr [JStr ''ms-python.python'', JStr ''ms-python.pylint''])])]),
         (''forwardPorts'', JArr [])])"
proof -
  have d: "isConfigDocument testConfig" by code_simp
  have r: "applyModifications testConfig (analyzePrompt ''Add Python support'') =
       Inr (JObj [
         (''name'', JStr ''Test Development''),
         (''image'', JStr ''mcr.microsoft.com/devcontainers/base:ubuntu''),
         (''features'', JObj []),
         (''customizations'', JObj [(''vscode'', JObj [(''extensions'',
             JArr [JStr ''ms-python.python'', JStr ''ms-python.pylint''])])]),
         (''forwardPorts'', JArr [])])"
    unfolding analyze_python by code_simp
  from applyModifications_frame [of testConfig "analyzePrompt ''Add Python support''"] d r
  show ?thesis by blast
qed

text \<open>
  C5. A database tag inserts a features entry exactly when it is postgresql, mongodb or
  redis, and a tool tag exactly when it is docker or git. Synthesis and patch leave a
  features block that is the one they found with the keys of these tags set to the empty
  object: no other entry is added, and no other entry changes.
\<close>

theorem features_of_supported_tags_only:
  "dom databaseFeature = {''postgresql'', ''mongodb'', ''redis''}
   \<and> dom toolFeature = {''docker'', ''git''}
   \<and> (applyModifications doc a = Inr doc' \<longrightarrow> featuresAdded (requestedFeatures a) doc doc')
   \<and> (generateConfig t a = Inr cfg \<longrightarrow>
        featuresAdded (requestedFeatures a) (JObj (config t)) cfg)"
proof (intro conjI impI)
  show "dom databaseFeature = {''postgresql'', ''mongodb'', ''redis''}"
    by (auto simp: dom_def databaseFeature_def split: if_splits)
  show "dom toolFeature = {''docker'', ''git''}"
    by (auto simp: dom_def toolFeature_def split: if_splits)
next
  assume "applyModifications doc a = Inr doc'"
  then show "featuresAdded (requestedFeatures a) doc doc'"
    by (rule applyModifications_featuresAdded)
next
  assume "generateConfig t a = Inr cfg"
  then show "featuresAdded (requestedFeatures a) (JObj (config t)) cfg"
    by (rule generateConfig_featuresAdded)
qed

theorem features_of_supported_tags_only_witness:
  "applyModifications testConfig
       databaseRequest =
     Inr (JObj [
         (''name'', JStr ''Test Development''),
         (''image'', JStr ''mcr.microsoft.com/devcontainers/base:ubuntu''),
         (''features'', JObj [
             (''ghcr.io/devcontainers/features/postgres:1'', JObj []),
             (''ghcr.io/devcontainers/features/git:1'', JObj [])]),
         (''customizations'', JObj [(''vscode'', JObj [(''extensions'', JArr [])])]),
         (''forwardPorts'', JArr [])])
   \<and> featuresAdded
        (requestedFeatures databaseRequest)
        testConfig
        (JObj [
         (''name'', JStr ''Test Development''),
         (''image'', JStr ''mcr.microsoft.com/devcontainers/base:ubuntu''),
         (''features'', JObj [
             (''ghcr.io/devcontainers/features/postgres:1'', JObj []),
             (''ghcr.io/devcontainers/features/git:1'', JObj [])]),
         (''customizations'', JObj [(''vscode'', JObj [(''extensions'', JArr [])])]),
         (''forwardPorts'', JArr [])])"
proof -
  have r: "applyModifications testConfig
       databaseRequest =
     Inr (JObj [
         (''name'', JStr ''Test Development''),
         (''image'', JStr ''mcr.microsoft.com/devcontainers/base:ubuntu''),
         (''features'', JObj [
             (''ghcr.io/devcontainers/features/postgres:1'', JObj []),
             (''ghcr.io/devcontainers/features/git:1'', JObj [])]),
         (''customizations'', JObj [(''vscode'', JObj [(''extensions'', JArr [])])]),
         (''forwardPorts'', JArr [])])"
    by code_simp
  from features_of_supported_tags_only [of testConfig
      databaseRequest _ tplGo] r
  show ?thesis by blast
qed

text \<open>
  C6. When the workspace holds no configuration document, \<open>modifyConfiguration\<close> fails
  with the ConfigNotFound error and leaves the file system as it found it.
\<close>

theorem modifyConfiguration_not_found:
  "fs (pathJoin [workspaceRoot, ''.devcontainer'', ''devcontainer.json'']) = None \<Longrightarrow>
   modifyConfiguration fs workspaceRoot modifications = (Inl ConfigNotFound, fs)"
  by (simp add: modifyConfiguration_def ConfigNotFound_def)

text \<open>
  C10. On a document of the data model without a features property, a patch whose
  database or tool list is not empty but holds no supported tag returns a document whose
  features block is the empty object. Synthesis from a template without a features
  property returns a document that has one exactly when the database list is not empty
  or the tool list holds docker or git.
\<close>

theorem empty_features_block:
  "(isConfigDocument doc \<and> field doc ''features'' = None
      \<and> (databases a \<noteq> [] \<or> tools a \<noteq> [])
      \<and> (\<forall>db\<in>set (databases a). databaseFeature db = None)
      \<and> ''docker'' \<notin> set (tools a) \<and> ''git'' \<notin> set (tools a) \<longrightarrow>
      (\<exists>doc'. applyModifications doc a = Inr doc' \<and> field doc' ''features'' = Some (JObj [])))
   \<and> (isConfigDocument (JObj (config t)) \<and> field (JObj (config t)) ''features'' = None \<longrightarrow>
        (\<exists>cfg. generateConfig t a = Inr cfg
           \<and> (field cfg ''features'' \<noteq> None \<longleftrightarrow>
                databases a \<noteq> [] \<or> ''docker'' \<in> set (tools a) \<or> ''git'' \<in> set (tools a))))"
proof (intro conjI impI)
  assume h: "isConfigDocument doc \<and> field doc ''features'' = None
      \<and> (databases a \<noteq> [] \<or> tools a \<noteq> [])
      \<and> (\<forall>db\<in>set (databases a). databaseFeature db = None)
      \<and> ''docker'' \<notin> set (tools a) \<and> ''git'' \<notin> set (tools a)"
  from h applyModifications_total obtain doc' where r: "applyModifications doc a = Inr doc'"
    by blast
  from r obtain m1 m2 where
    m1: "mergePorts doc (ports a) = Inr m1" and m2: "mergeExtensions m1 (extensions a) = Inr m2" and
    rest: "(databases a = [] \<and> tools a = [] \<and> doc' = m2) \<or>
     ((databases a \<noteq> [] \<or> tools a \<noteq> []) \<and> (\<exists>m3 m4 m5.
        ensure m2 [''features''] (JObj []) = Inr m3 \<and>
        addDatabases m3 (databases a) = Inr m4 \<and>
        (if ''docker'' \<in> set (tools a) then addFeature m4 dockerFeature else Inr m4) = Inr m5 \<and>
        (if ''git'' \<in> set (tools a) then addFeature m5 gitFeature else Inr m5) = Inr doc'))"
    by (rule applyModifications_steps)
  from h rest obtain m3 where
    m3: "ensure m2 [''features''] (JObj []) = Inr m3" "addDatabases m3 (databases a) = Inr doc'"
    by auto
  from h have "addDatabases m3 (databases a) = Inr m3" by (simp add: addDatabases_unsupported)
  with m3(2) have same: "doc' = m3" by simp
  have "field m1 ''features'' = field doc ''features''"
    using mergePorts_changedAt [OF m1] by (rule changedAt_field) simp
  moreover have "field m2 ''features'' = field m1 ''features''"
    using mergeExtensions_changedAt [OF m2] by (rule changedAt_field) simp
  ultimately have "field m2 ''features'' = None" using h by simp
  from ensure_features(3) [OF m3(1) this] same r
  show "\<exists>doc'. applyModifications doc a = Inr doc' \<and> field doc' ''features'' = Some (JObj [])"
    by simp
next
  assume h: "isConfigDocument (JObj (config t)) \<and> field (JObj (config t)) ''features'' = None"
  from h generateConfig_total obtain cfg where r: "generateConfig t a = Inr cfg" by blast
  from r obtain c1 c2 c3 c4 c5 where
    s1: "mergePorts (JObj (config t)) (ports a) = Inr c1" and
    s2: "mergeExtensions c1 (extensions a) = Inr c2" and
    s3: "addDatabaseFeatures c2 (databases a) = Inr c3" and
    s4: "addToolFeature c3 (''docker'' \<in> set (tools a)) dockerFeature = Inr c4" and
    s5: "addToolFeature c4 (''git'' \<in> set (tools a)) gitFeature = Inr c5" and
    s6: "updateName c5 a = Inr cfg"
    by (rule generateConfig_steps)
  have "field c1 ''features'' = field (JObj (config t)) ''features''"
    using mergePorts_changedAt [OF s1] by (rule changedAt_field) simp
  moreover have "field c2 ''features'' = field c1 ''features''"
    using mergeExtensions_changedAt [OF s2] by (rule changedAt_field) simp
  ultimately have f2: "field c2 ''features'' = None" using h by simp
  have f3: "field c3 ''features'' \<noteq> None \<longleftrightarrow> databases a \<noteq> []"
    using s3 f2 by (rule addDatabaseFeatures_present)
  have f4: "field c4 ''features'' \<noteq> None \<longleftrightarrow>
      field c3 ''features'' \<noteq> None \<or> ''docker'' \<in> set (tools a)"
    using s4 by (rule addToolFeature_present)
  have f5: "field c5 ''features'' \<noteq> None \<longleftrightarrow>
      field c4 ''features'' \<noteq> None \<or> ''git'' \<in> set (tools a)"
    using s5 by (rule addToolFeature_present)
  have f6: "field cfg ''features'' = field c5 ''features''"
    using updateName_changedAt [OF s6] by (rule changedAt_field) simp
  from f3 f4 f5 f6 have "field cfg ''features'' \<noteq> None \<longleftrightarrow>
                databases a \<noteq> [] \<or> ''docker'' \<in> set (tools a) \<or> ''git'' \<in> set (tools a)"
    by simp
  with r show "\<exists>cfg. generateConfig t a = Inr cfg
           \<and> (field cfg ''features'' \<noteq> None \<longleftrightarrow>
                databases a \<noteq> [] \<or> ''docker'' \<in> set (tools a) \<or> ''git'' \<in> set (tools a))"
    by blast
qed

theorem empty_features_block_witness:
  "applyModifications (JObj [(''name'', JStr ''Test Development'')]) unsupportedRequest
     = Inr (JObj [(''name'', JStr ''Test Development''), (''features'', JObj [])])
   \<and> field (JObj (config tplDockerCompose)) ''features'' = None
   \<and> (\<exists>cfg. generateConfig tplDockerCompose unsupportedRequest = Inr cfg
          \<and> field cfg ''features'' \<noteq> None)"
proof -
  have d: "isConfigDocument (JObj [(''name'', JStr ''Test Development'')])" by code_simp
  have f: "field (JObj [(''name'', JStr ''Test Development'')]) ''features'' = None" by code_simp
  have u: "databases unsupportedRequest \<noteq> [] \<or> tools unsupportedRequest \<noteq> []"
    "\<forall>db\<in>set (databases unsupportedRequest). databaseFeature db = None"
    "''docker'' \<notin> set (tools unsupportedRequest)" "''git'' \<notin> set (tools unsupportedRequest)"
    by (simp_all add: unsupportedRequest_def databaseFeature_def)
  have t: "isConfigDocument (JObj (config tplDockerCompose))" by code_simp
  have g: "field (JObj (config tplDockerCompose)) ''features'' = None" by code_simp
  note inst = empty_features_block [of "JObj [(''name'', JStr ''Test Development'')]"
      unsupportedRequest tplDockerCompose]
  from inst d f u obtain doc' where
    r: "applyModifications (JObj [(''name'', JStr ''Test Development'')]) unsupportedRequest = Inr doc'"
       "field doc' ''features'' = Some (JObj [])"
    by blast
  have "applyModifications (JObj [(''name'', JStr ''Test Development'')]) unsupportedRequest
     = Inr (JObj [(''name'', JStr ''Test Development''), (''features'', JObj [])])"
    by code_simp
  moreover from inst t g u(1) have "\<exists>cfg. generateConfig tplDockerCompose unsupportedRequest = Inr cfg
          \<and> field cfg ''features'' \<noteq> None"
    by (simp add: unsupportedRequest_def)
  ultimately show ?thesis using g by blast
qed

text \<open>
  C7, as amended. On a document of the data model whose \<open>forwardPorts\<close> is absent or a
  list of numbers, patch and synthesis with at least one port in the feature set leave a
  \<open>forwardPorts\<close> list without duplicates whose elements are the existing ports and
  the ports of the feature set; with no port in the feature set they leave
  \<open>forwardPorts\<close> as it is.
\<close>

theorem forwardPorts_merge:
  "(isConfigDocument doc
      \<and> (field doc ''forwardPorts'' = None \<and> old = []
           \<or> field doc ''forwardPorts'' = Some (JArr (map JNum old))) \<longrightarrow>
      (\<exists>doc'. applyModifications doc a = Inr doc'
         \<and> (if ports a = [] then field doc' ''forwardPorts'' = field doc ''forwardPorts''
              else \<exists>merged. field doc' ''forwardPorts'' = Some (JArr (map JNum merged))
                     \<and> distinct merged \<and> set merged = set old \<union> set (ports a))))
   \<and> (isConfigDocument (JObj (config t))
      \<and> (field (JObj (config t)) ''forwardPorts'' = None \<and> old = []
           \<or> field (JObj (config t)) ''forwardPorts'' = Some (JArr (map JNum old))) \<longrightarrow>
      (\<exists>cfg. generateConfig t a = Inr cfg
         \<and> (if ports a = []
              then field cfg ''forwardPorts'' = field (JObj (config t)) ''forwardPorts''
              else \<exists>merged. field cfg ''forwardPorts'' = Some (JArr (map JNum merged))
                     \<and> distinct merged \<and> set merged = set old \<union> set (ports a))))"
proof (intro conjI impI)
  assume h: "isConfigDocument doc
      \<and> (field doc ''forwardPorts'' = None \<and> old = []
           \<or> field doc ''forwardPorts'' = Some (JArr (map JNum old)))"
  from h applyModifications_total obtain doc' where r: "applyModifications doc a = Inr doc'"
    by blast
  from r obtain m1 where m1: "mergePorts doc (ports a) = Inr m1"
    by (rule applyModifications_steps)
  from r m1 have same: "field doc' ''forwardPorts'' = field m1 ''forwardPorts''"
    by (rule applyModifications_after_ports)
  from h have "if ports a = [] then field m1 ''forwardPorts'' = field doc ''forwardPorts''
     else \<exists>merged. field m1 ''forwardPorts'' = Some (JArr (map JNum merged))
                     \<and> distinct merged \<and> set merged = set old \<union> set (ports a)"
    using m1 by (intro mergePorts_result) simp_all
  with same r show "\<exists>doc'. applyModifications doc a = Inr doc'
         \<and> (if ports a = [] then field doc' ''forwardPorts'' = field doc ''forwardPorts''
              else \<exists>merged. field doc' ''forwardPorts'' = Some (JArr (map JNum merged))
                     \<and> distinct merged \<and> set merged = set old \<union> set (ports a))"
    by (cases "ports a = []") auto
next
  assume h: "isConfigDocument (JObj (config t))
      \<and> (field (JObj (config t)) ''forwardPorts'' = None \<and> old = []
           \<or> field (JObj (config t)) ''forwardPorts'' = Some (JArr (map JNum old)))"
  from h generateConfig_total obtain cfg where r: "generateConfig t a = Inr cfg" by blast
  from r obtain c1 where c1: "mergePorts (JObj (config t)) (ports a) = Inr c1"
    by (rule generateConfig_steps)
  from r c1 have same: "field cfg ''forwardPorts'' = field c1 ''forwardPorts''"
    by (rule generateConfig_after_ports)
  from h have "if ports a = []
     then field c1 ''forwardPorts'' = field (JObj (config t)) ''forwardPorts''
     else \<exists>merged. field c1 ''forwardPorts'' = Some (JArr (map JNum merged))
                     \<and> distinct merged \<and> set merged = set old \<union> set (ports a)"
    using c1 by (intro mergePorts_result) simp_all
  with same r show "\<exists>cfg. generateConfig t a = Inr cfg
         \<and> (if ports a = []
              then field cfg ''forwardPorts'' = field (JObj (config t)) ''forwardPorts''
              else \<exists>merged. field cfg ''forwardPorts'' = Some (JArr (map JNum merged))
                     \<and> distinct merged \<and> set merged = set old \<union> set (ports a))"
    by (cases "ports a = []") auto
qed

theorem forwardPorts_merge_witness:
  "isConfigDocument (JObj [(''forwardPorts'', JArr [JNum 3000])])
   \<and> (\<exists>doc' merged.
         applyModifications (JObj [(''forwardPorts'', JArr [JNum 3000])]) portRequest = Inr doc'
         \<and> field doc' ''forwardPorts'' = Some (JArr (map JNum merged))
         \<and> distinct merged \<and> set merged = {3000, 8080})"
proof -
  have d: "isConfigDocument (JObj [(''forwardPorts'', JArr [JNum 3000])])" by code_simp
  have f: "field (JObj [(''forwardPorts'', JArr [JNum 3000])]) ''forwardPorts''
      = Some (JArr (map JNum [3000]))" by code_simp
  have p: "ports portRequest = [8080]" by (simp add: portRequest_def)
  from forwardPorts_merge [of "JObj [(''forwardPorts'', JArr [JNum 3000])]" "[3000]" portRequest
      tplGo] d f
  have "\<exists>doc'. applyModifications (JObj [(''forwardPorts'', JArr [JNum 3000])]) portRequest = Inr doc'
         \<and> (if ports portRequest = []
              then field doc' ''forwardPorts''
                   = field (JObj [(''forwardPorts'', JArr [JNum 3000])]) ''forwardPorts''
              else \<exists>merged. field doc' ''forwardPorts'' = Some (JArr (map JNum merged))
                     \<and> distinct merged \<and> set merged = set [3000] \<union> set (ports portRequest))"
    by blast
  with d show ?thesis by (simp add: p insert_commute)
qed

text \<open>
  C7 as stated fails when the feature set has no port: the block that merges is skipped,
  and a \<open>forwardPorts\<close> list with a duplicate keeps it. The request is the one of the
  test suite, "Add Python support".
\<close>

theorem forwardPorts_duplicate_counterexample:
  "ports (analyzePrompt ''Add Python support'') = []
   \<and> applyModifications (JObj [(''forwardPorts'', JArr [JNum 3000, JNum 3000])])
         (analyzePrompt ''Add Python support'')
       = Inr (JObj [
           (''forwardPorts'', JArr [JNum 3000, JNum 3000]),
           (''customizations'', JObj [(''vscode'', JObj [(''extensions'',
               JArr [JStr ''ms-python.python'', JStr ''ms-python.pylint''])])])])
   \<and> \<not> distinct [JNum 3000, JNum 3000]"
  unfolding analyze_python by code_simp

theorem modifyConfiguration_not_found_witness:
  "modifyConfiguration Map.empty ''empty'' ''Add some features''
     = (Inl (Error ''No existing devcontainer.json found''), Map.empty)"
  using modifyConfiguration_not_found [of Map.empty "''empty''" "''Add some features''"]
  by (simp add: ConfigNotFound_def)

section \<open>Port extraction: claims\<close>



section \<open>Isolation of the catalog: claims\<close>

text \<open>
  C8. Synthesis works on a deep copy of the document of the selected template. Let the
  store hold the document of a template \<open>t\<close> under \<open>cfg\<close>, as a tree of the objects \<open>F\<close>,
  and let the document have the types of a configuration document (every template of the
  catalog has them, and then \<open>generateConfig\<close> returns). Let \<open>generateConfig\<close> run twice,
  one call after the other, on any two prompt analyses \<open>a1\<close> and \<open>a2\<close>. Then both calls
  return, and in the store that the second call leaves: the two values returned are the
  documents that \<open>generateConfig\<close> computes from \<open>t\<close> and \<open>a1\<close> alone and from \<open>t\<close> and \<open>a2\<close>
  alone, so nothing of the first request is in the second result; the catalog still holds
  the document of \<open>t\<close> in the objects \<open>F\<close>; no object belongs to two of the three trees; and
  every object that existed before the calls is as it was.
\<close>

theorem generateConfig_no_sharing:
  assumes "rep h cfg (JObj (config t)) F" and "isConfigDocument (JObj (config t))"
  shows "\<exists>j1 j2 c1 h1 c2 h2 F1 F2.
      generateConfig t a1 = Inr j1 \<and> generateConfig t a2 = Inr j2
    \<and> generateConfigStore cfg a1 h = Inr (c1, h1)
    \<and> generateConfigStore cfg a2 h1 = Inr (c2, h2)
    \<and> rep h2 c1 j1 F1 \<and> rep h2 c2 j2 F2 \<and> rep h2 cfg (JObj (config t)) F
    \<and> F \<inter> F1 = {} \<and> F \<inter> F2 = {} \<and> F1 \<inter> F2 = {}
    \<and> take (length h) h2 = h"
proof -
  from generateConfig_total [OF assms(2)] obtain j1 j2 where
    j: "generateConfig t a1 = Inr j1" "generateConfig t a2 = Inr j2" by blast
  from generateConfigStore_sim [OF assms(1) j(1)] obtain c1 h1 F1 where
    s1: "generateConfigStore cfg a1 h = Inr (c1, h1)" "rep h1 c1 j1 F1"
      "F1 \<subseteq> {length h..<length h1}" "length h \<le> length h1" "\<forall>a<length h. h1 ! a = h ! a"
    by blast
  have b: "F \<subseteq> {..<length h}" by (rule rep_bounded(1) [OF assms(1)])
  have "\<forall>a\<in>F. a < length h1 \<and> h1 ! a = h ! a" using b s1(4,5) by auto
  from rep_frame(1) [OF assms(1) this] have r1: "rep h1 cfg (JObj (config t)) F" .
  from generateConfigStore_sim [OF r1 j(2)] obtain c2 h2 F2 where
    s2: "generateConfigStore cfg a2 h1 = Inr (c2, h2)" "rep h2 c2 j2 F2"
      "F2 \<subseteq> {length h1..<length h2}" "length h1 \<le> length h2" "\<forall>a<length h1. h2 ! a = h1 ! a"
    by blast
  have "\<forall>a\<in>F. a < length h2 \<and> h2 ! a = h1 ! a" using b s1(4) s2(4,5) by auto
  from rep_frame(1) [OF r1 this] have r2: "rep h2 cfg (JObj (config t)) F" .
  have "\<forall>a\<in>F1. a < length h2 \<and> h2 ! a = h1 ! a" using s1(3) s2(4,5) by auto
  from rep_frame(1) [OF s1(2) this] have r3: "rep h2 c1 j1 F1" .
  have f: "F \<subseteq> {0..<length h}" "F \<subseteq> {0..<length h1}" using b s1(4) by auto
  have d: "F \<inter> F1 = {}" "F \<inter> F2 = {}" "F1 \<inter> F2 = {}"
    by (rule disjoint_ranges [OF f(1) s1(3)], rule disjoint_ranges [OF f(2) s2(3)],
        rule disjoint_ranges [OF s1(3) s2(3)])
  have "\<forall>a<length h. h2 ! a = h ! a" using s1(4,5) s2(5) by auto
  with prefix_take [of h h2] s1(4) s2(4) have "take (length h) h2 = h" by simp
  with j s1(1) s2(1,2) r2 r3 d show ?thesis by blast
qed

theorem generateConfig_no_sharing_witness:
  "\<exists>F. rep (snd (fromJson (JObj (config tplGo)) [])) (fst (fromJson (JObj (config tplGo)) []))
         (JObj (config tplGo)) F
     \<and> isConfigDocument (JObj (config tplGo))
     \<and> (\<exists>j1 j2 c1 h1 c2 h2 F1 F2.
          generateConfig tplGo portRequest = Inr j1
        \<and> generateConfig tplGo databaseRequest = Inr j2
        \<and> generateConfigStore (fst (fromJson (JObj (config tplGo)) [])) portRequest
            (snd (fromJson (JObj (config tplGo)) [])) = Inr (c1, h1)
        \<and> generateConfigStore (fst (fromJson (JObj (config tplGo)) [])) databaseRequest h1
            = Inr (c2, h2)
        \<and> rep h2 c1 j1 F1 \<and> rep h2 c2 j2 F2
        \<and> rep h2 (fst (fromJson (JObj (config tplGo)) [])) (JObj (config tplGo)) F
        \<and> F \<inter> F1 = {} \<and> F \<inter> F2 = {} \<and> F1 \<inter> F2 = {}
        \<and> take (length (snd (fromJson (JObj (config tplGo)) []))) h2
            = snd (fromJson (JObj (config tplGo)) []))"
proof -
  let ?J = "JObj (config tplGo)"
  have "fromJson ?J [] = (fst (fromJson ?J []), snd (fromJson ?J []))" by simp
  from fromJson_rep(1) [OF this] obtain F where
    F: "rep (snd (fromJson ?J [])) (fst (fromJson ?J [])) ?J F" by blast
  have d: "isConfigDocument ?J" by code_simp
  from generateConfig_no_sharing [OF F d, of portRequest databaseRequest] F d
  show ?thesis by blast
qed

end
